theory Spec2Isabelle
  imports Main
begin

section \<open>The PharmaBatchNFT contract: data model\<close>

text \<open>
  The contract is the Solidity source embedded in \<^verbatim>\<open>src/awareness-feed/server.js\<close>
  (contract \<^verbatim>\<open>PharmaBatchNFT\<close>, Solidity 0.8.20). Every external function is a HOL
  function from the contract's storage (the record \<open>contract\<close>) and the call's arguments
  to \<open>error + result\<close>: \<open>Inl\<close> is a revert, which leaves the storage as it was.

  Integers: \<^verbatim>\<open>uint256\<close>, \<^verbatim>\<open>uint64\<close>, \<^verbatim>\<open>uint32\<close> are naturals and \<^verbatim>\<open>int256\<close> an integer.
  Solidity 0.8 reverts (panics) on overflow and underflow of checked arithmetic, so each
  \<^verbatim>\<open>+\<close>, \<^verbatim>\<open>-\<close>, \<^verbatim>\<open>*\<close> of the source has its range check written out and ends in \<open>Panic\<close>
  when it fails; the explicit conversion \<^verbatim>\<open>uint64(block.timestamp)\<close> truncates, which is
  \<open>mod 2 ^ 64\<close>. Addresses and \<^verbatim>\<open>bytes32\<close> values are naturals, \<open>0\<close> being
  \<^verbatim>\<open>address(0)\<close> and \<^verbatim>\<open>bytes32(0)\<close>. A Solidity mapping is a total function whose
  value at an unwritten key is the zero value of its type. The arguments of a call are
  taken in the range of their Solidity types (the ABI decoder refuses the others). A dynamic
  array has no bound of its own. Events are not modelled.

  The OpenZeppelin base contracts are a library outside the repository. Of their storage
  the model keeps what the contract reads: the token owners (\<open>owners\<close>, read by
  \<^verbatim>\<open>_ownerOf\<close>), the role table (\<open>roles\<close>, read by \<^verbatim>\<open>hasRole\<close>), the pause bit and
  the reentrancy guard. The guard is entered only while one of the three \<^verbatim>\<open>nonReentrant\<close>
  functions runs, so it is not a field of the storage between transactions: a call made
  from inside a value transfer finds it entered, every other call finds it free.
\<close>

type_synonym address = nat
type_synonym bytes32 = nat

definition UINT256_MAX :: nat where
  "UINT256_MAX = 2 ^ 256 - 1"

definition UINT32_MAX :: nat where
  "UINT32_MAX = 2 ^ 32 - 1"

definition INT256_MAX :: int where
  "INT256_MAX = 2 ^ 255 - 1"

definition INT256_MIN :: int where
  "INT256_MIN = - (2 ^ 255)"

definition BPS_DENOMINATOR :: nat where
  "BPS_DENOMINATOR = 10000"

text \<open>\<^verbatim>\<open>uint64(x)\<close>: the truncating conversion.\<close>

definition uint64 :: "nat \<Rightarrow> nat" where
  "uint64 x = x mod 2 ^ 64"

datatype role = DEFAULT_ADMIN_ROLE | REGULATOR_ROLE | MANUFACTURER_ROLE | LAB_ROLE | INSPECTOR_ROLE

datatype ReportStatus = Pending | ConfirmedFake | RejectedFalse

datatype error =
    Revert string
  | Panic
  | EnforcedPause
  | ExpectedPause
  | AccessControlUnauthorizedAccount address role
  | AccessControlBadConfirmation
  | ERC721InvalidReceiver address
  | ERC721InvalidSender address
  | ERC721IncorrectOwner address nat address
  | ERC721NonexistentToken nat
  | ERC721InsufficientApproval address nat
  | ECDSAInvalidSignature
  | ReentrancyGuardReentrantCall

record ManufacturerProfile =
  licenseNo :: string
  legalName :: string
  active :: bool

record LabProfile =
  accreditationId :: string
  labActive :: bool

record ReporterProfile =
  reputation :: int
  reportsSubmitted :: nat
  reportsConfirmed :: nat
  reportsRejected :: nat
  openReports :: nat
  lastReportAt :: nat
  blocked :: bool

record Batch =
  productName :: string
  manufacturerName :: string
  manufacturerLicenseNo :: string
  batchNumber :: string
  mfgDate :: nat
  expiryTimestamp :: nat
  apiHash :: string
  packagingHash :: bytes32
  currentOwnerType :: string
  currentCustodian :: address
  lastVerified :: nat
  modelHash :: string
  batchOpenReports :: nat
  pendingSevereReports :: nat
  quarantined :: bool
  flaggedHighRisk :: bool

record LabAttestation =
  lab :: address
  reportHash :: bytes32
  passed :: bool
  confidenceBps :: nat
  attestedAt :: nat

record FakeReport =
  reportId :: nat
  tokenId :: nat
  reporter :: address
  identityNullifier :: bytes32
  evidenceURI :: string
  reason :: string
  severity :: nat
  stakeAmount :: nat
  createdAt :: nat
  resolvedAt :: nat
  status :: ReportStatus
  resolver :: address

text \<open>
  The storage of the contract. The source's \<^verbatim>\<open>_tokenIdCounter\<close>, \<^verbatim>\<open>_reportIdCounter\<close>,
  \<^verbatim>\<open>_labAttestationsByBatch\<close>, \<^verbatim>\<open>_reportsByBatch\<close>, \<^verbatim>\<open>_highRiskBatchIds\<close> and
  \<^verbatim>\<open>_highRiskIndexPlusOne\<close> lose their leading underscore. The field \<open>batchOpenReports\<close>
  is \<^verbatim>\<open>Batch.openReports\<close> (the name \<open>openReports\<close> is the reporter profile's).
\<close>

record contract =
  tokenIdCounter :: nat
  reportIdCounter :: nat
  minStakeWei :: nat
  mediumStakeWei :: nat
  highStakeWei :: nat
  baseRewardWei :: nat
  falseReportSlashBps :: nat
  bountyPoolWei :: nat
  reportCooldownSec :: nat
  maxOpenReportsPerReporter :: nat
  minReputationForSeverityThree :: int
  totalBatchesMinted :: nat
  totalReportsFiled :: nat
  totalOpenReports :: nat
  totalConfirmedFakeReports :: nat
  manufacturers :: "address \<Rightarrow> ManufacturerProfile"
  labs :: "address \<Rightarrow> LabProfile"
  reporterProfiles :: "address \<Rightarrow> ReporterProfile"
  batches :: "nat \<Rightarrow> Batch"
  labAttestationsByBatch :: "nat \<Rightarrow> LabAttestation list"
  reports :: "nat \<Rightarrow> FakeReport"
  reportsByBatch :: "nat \<Rightarrow> nat list"
  identityNullifierUsed :: "bytes32 \<Rightarrow> bool"
  hasOpenReportForBatch :: "address \<Rightarrow> nat \<Rightarrow> bool"
  highRiskBatchIds :: "nat list"
  highRiskIndexPlusOne :: "nat \<Rightarrow> nat"
  paused :: bool
  roles :: "role \<Rightarrow> address \<Rightarrow> bool"
  owners :: "nat \<Rightarrow> address"

text \<open>The zero values of the struct types: what a mapping holds at an unwritten key.\<close>

definition zeroManufacturerProfile :: ManufacturerProfile where
  "zeroManufacturerProfile = \<lparr>licenseNo = [], legalName = [], active = False\<rparr>"

definition zeroLabProfile :: LabProfile where
  "zeroLabProfile = \<lparr>accreditationId = [], labActive = False\<rparr>"

definition zeroReporterProfile :: ReporterProfile where
  "zeroReporterProfile =
     \<lparr>reputation = 0, reportsSubmitted = 0, reportsConfirmed = 0, reportsRejected = 0,
      openReports = 0, lastReportAt = 0, blocked = False\<rparr>"

definition zeroBatch :: Batch where
  "zeroBatch =
     \<lparr>productName = [], manufacturerName = [], manufacturerLicenseNo = [], batchNumber = [],
      mfgDate = 0, expiryTimestamp = 0, apiHash = [], packagingHash = 0,
      currentOwnerType = [], currentCustodian = 0, lastVerified = 0, modelHash = [],
      batchOpenReports = 0, pendingSevereReports = 0, quarantined = False,
      flaggedHighRisk = False\<rparr>"

definition zeroFakeReport :: FakeReport where
  "zeroFakeReport =
     \<lparr>reportId = 0, tokenId = 0, reporter = 0, identityNullifier = 0, evidenceURI = [],
      reason = [], severity = 0, stakeAmount = 0, createdAt = 0, resolvedAt = 0,
      status = Pending, resolver = 0\<rparr>"

section \<open>The constructor and the administrative functions\<close>

text \<open>
  The constructor grants the deployer all five roles and registers it as the bootstrap
  manufacturer and lab. The state variables take their initialisers: \<^verbatim>\<open>0.002 ether\<close> is
  \<open>2 * 10 ^ 15\<close> wei, \<^verbatim>\<open>6 hours\<close> is \<open>21600\<close> seconds.
\<close>

definition constructor :: "address \<Rightarrow> contract" where
  "constructor msg_sender =
     \<lparr>tokenIdCounter = 0, reportIdCounter = 0,
      minStakeWei = 2000000000000000, mediumStakeWei = 5000000000000000,
      highStakeWei = 10000000000000000, baseRewardWei = 2000000000000000,
      falseReportSlashBps = 7000, bountyPoolWei = 0,
      reportCooldownSec = 21600, maxOpenReportsPerReporter = 5,
      minReputationForSeverityThree = 5,
      totalBatchesMinted = 0, totalReportsFiled = 0, totalOpenReports = 0,
      totalConfirmedFakeReports = 0,
      manufacturers = (\<lambda>_. zeroManufacturerProfile)
        (msg_sender := \<lparr>licenseNo = ''BOOTSTRAP-LICENSE'',
                         legalName = ''Bootstrap Manufacturer'', active = True\<rparr>),
      labs = (\<lambda>_. zeroLabProfile)
        (msg_sender := \<lparr>accreditationId = ''BOOTSTRAP-LAB'', labActive = True\<rparr>),
      reporterProfiles = (\<lambda>_. zeroReporterProfile),
      batches = (\<lambda>_. zeroBatch),
      labAttestationsByBatch = (\<lambda>_. []),
      reports = (\<lambda>_. zeroFakeReport),
      reportsByBatch = (\<lambda>_. []),
      identityNullifierUsed = (\<lambda>_. False),
      hasOpenReportForBatch = (\<lambda>_ _. False),
      highRiskBatchIds = [],
      highRiskIndexPlusOne = (\<lambda>_. 0),
      paused = False,
      roles = (\<lambda>_ a. a = msg_sender),
      owners = (\<lambda>_. 0)\<rparr>"

text \<open>\<^verbatim>\<open>receive() external payable\<close>: no modifier at all.\<close>

definition receive :: "contract \<Rightarrow> address \<Rightarrow> nat \<Rightarrow> error + contract" where
  "receive s msg_sender msg_value =
     (if UINT256_MAX < bountyPoolWei s + msg_value then Inl Panic
      else Inr (s\<lparr>bountyPoolWei := bountyPoolWei s + msg_value\<rparr>))"

definition registerManufacturer ::
  "contract \<Rightarrow> address \<Rightarrow> address \<Rightarrow> string \<Rightarrow> string \<Rightarrow> bool \<Rightarrow> error + contract" where
  "registerManufacturer s msg_sender manufacturer licNo legal act =
     (if \<not> roles s REGULATOR_ROLE msg_sender
        then Inl (AccessControlUnauthorizedAccount msg_sender REGULATOR_ROLE)
      else if manufacturer = 0 then Inl (Revert ''Invalid manufacturer'')
      else Inr (s\<lparr>manufacturers := (manufacturers s)
                     (manufacturer := \<lparr>licenseNo = licNo, legalName = legal, active = act\<rparr>),
                   roles := (roles s)
                     (MANUFACTURER_ROLE := (roles s MANUFACTURER_ROLE)(manufacturer := act))\<rparr>))"

definition registerLab ::
  "contract \<Rightarrow> address \<Rightarrow> address \<Rightarrow> string \<Rightarrow> bool \<Rightarrow> error + contract" where
  "registerLab s msg_sender labAddr accId act =
     (if \<not> roles s REGULATOR_ROLE msg_sender
        then Inl (AccessControlUnauthorizedAccount msg_sender REGULATOR_ROLE)
      else if labAddr = 0 then Inl (Revert ''Invalid lab'')
      else Inr (s\<lparr>labs := (labs s)(labAddr := \<lparr>accreditationId = accId, labActive = act\<rparr>),
                   roles := (roles s)(LAB_ROLE := (roles s LAB_ROLE)(labAddr := act))\<rparr>))"

definition setInspector :: "contract \<Rightarrow> address \<Rightarrow> address \<Rightarrow> bool \<Rightarrow> error + contract" where
  "setInspector s msg_sender inspector enabled =
     (if \<not> roles s REGULATOR_ROLE msg_sender
        then Inl (AccessControlUnauthorizedAccount msg_sender REGULATOR_ROLE)
      else if inspector = 0 then Inl (Revert ''Invalid inspector'')
      else Inr (s\<lparr>roles := (roles s)
                     (INSPECTOR_ROLE := (roles s INSPECTOR_ROLE)(inspector := enabled))\<rparr>))"

definition setReporterBlocked ::
  "contract \<Rightarrow> address \<Rightarrow> address \<Rightarrow> bool \<Rightarrow> error + contract" where
  "setReporterBlocked s msg_sender who blk =
     (if \<not> roles s REGULATOR_ROLE msg_sender
        then Inl (AccessControlUnauthorizedAccount msg_sender REGULATOR_ROLE)
      else Inr (s\<lparr>reporterProfiles := (reporterProfiles s)
                     (who := (reporterProfiles s who)\<lparr>blocked := blk\<rparr>)\<rparr>))"

definition setPolicyParameters ::
  "contract \<Rightarrow> address \<Rightarrow> nat \<Rightarrow> nat \<Rightarrow> nat \<Rightarrow> nat \<Rightarrow> nat \<Rightarrow> nat \<Rightarrow> nat \<Rightarrow> int
     \<Rightarrow> error + contract" where
  "setPolicyParameters s msg_sender newMinStakeWei newMediumStakeWei newHighStakeWei
       newBaseRewardWei newFalseReportSlashBps newReportCooldownSec
       newMaxOpenReportsPerReporter newMinReputationForSeverityThree =
     (if \<not> roles s REGULATOR_ROLE msg_sender
        then Inl (AccessControlUnauthorizedAccount msg_sender REGULATOR_ROLE)
      else if \<not> newMinStakeWei > 0 then Inl (Revert ''Min stake must be > 0'')
      else if \<not> newMediumStakeWei \<ge> newMinStakeWei then Inl (Revert ''Medium stake too low'')
      else if \<not> newHighStakeWei \<ge> newMediumStakeWei then Inl (Revert ''High stake too low'')
      else if \<not> newFalseReportSlashBps \<le> BPS_DENOMINATOR then Inl (Revert ''Invalid slash bps'')
      else if \<not> newMaxOpenReportsPerReporter > 0
        then Inl (Revert ''Max open reports must be > 0'')
      else Inr (s\<lparr>minStakeWei := newMinStakeWei,
                   mediumStakeWei := newMediumStakeWei,
                   highStakeWei := newHighStakeWei,
                   baseRewardWei := newBaseRewardWei,
                   falseReportSlashBps := newFalseReportSlashBps,
                   reportCooldownSec := newReportCooldownSec,
                   maxOpenReportsPerReporter := newMaxOpenReportsPerReporter,
                   minReputationForSeverityThree := newMinReputationForSeverityThree\<rparr>))"

definition fundBountyPool :: "contract \<Rightarrow> address \<Rightarrow> nat \<Rightarrow> error + contract" where
  "fundBountyPool s msg_sender msg_value =
     (if \<not> roles s REGULATOR_ROLE msg_sender
        then Inl (AccessControlUnauthorizedAccount msg_sender REGULATOR_ROLE)
      else if \<not> msg_value > 0 then Inl (Revert ''No funds provided'')
      else if UINT256_MAX < bountyPoolWei s + msg_value then Inl Panic
      else Inr (s\<lparr>bountyPoolWei := bountyPoolWei s + msg_value\<rparr>))"

text \<open>\<^verbatim>\<open>pause\<close> and \<^verbatim>\<open>unpause\<close>: the library's \<^verbatim>\<open>_pause\<close> is \<^verbatim>\<open>whenNotPaused\<close>, its
  \<^verbatim>\<open>_unpause\<close> is \<^verbatim>\<open>whenPaused\<close>.\<close>

definition pause :: "contract \<Rightarrow> address \<Rightarrow> error + contract" where
  "pause s msg_sender =
     (if \<not> roles s REGULATOR_ROLE msg_sender
        then Inl (AccessControlUnauthorizedAccount msg_sender REGULATOR_ROLE)
      else if paused s then Inl EnforcedPause
      else Inr (s\<lparr>paused := True\<rparr>))"

definition unpause :: "contract \<Rightarrow> address \<Rightarrow> error + contract" where
  "unpause s msg_sender =
     (if \<not> roles s REGULATOR_ROLE msg_sender
        then Inl (AccessControlUnauthorizedAccount msg_sender REGULATOR_ROLE)
      else if \<not> paused s then Inl ExpectedPause
      else Inr (s\<lparr>paused := False\<rparr>))"

section \<open>The High-Risk Index\<close>

text \<open>
  \<^verbatim>\<open>_setHighRisk\<close>: the batch's flag, the dense array \<open>highRiskBatchIds\<close> and the map
  \<open>highRiskIndexPlusOne\<close> from a token to its position plus one (\<open>0\<close>: absent). The
  checked subtraction \<^verbatim>\<open>_highRiskBatchIds.length - 1\<close> and the array write at \<^verbatim>\<open>index\<close>
  panic when out of range; \<^verbatim>\<open>pop()\<close> is \<open>butlast\<close>.
\<close>

definition setHighRisk :: "contract \<Rightarrow> nat \<Rightarrow> bool \<Rightarrow> error + contract" where
  "setHighRisk s tid highRisk =
     (if flaggedHighRisk (batches s tid) = highRisk then Inr s
      else
        let s1 = s\<lparr>batches := (batches s)
                     (tid := (batches s tid)\<lparr>flaggedHighRisk := highRisk\<rparr>)\<rparr>;
            ids = highRiskBatchIds s;
            pos = highRiskIndexPlusOne s
        in
        if highRisk then
          Inr (s1\<lparr>highRiskBatchIds := ids @ [tid],
                  highRiskIndexPlusOne := pos(tid := length ids + 1)\<rparr>)
        else
          let indexPlusOne = pos tid in
          if indexPlusOne > 0 then
            if length ids = 0 then Inl Panic
            else
              let index = indexPlusOne - 1;
                  lastIndex = length ids - 1
              in
              if index \<noteq> lastIndex then
                if \<not> index < length ids then Inl Panic
                else
                  let movedTokenId = ids ! lastIndex in
                  Inr (s1\<lparr>highRiskBatchIds := butlast (ids[index := movedTokenId]),
                          highRiskIndexPlusOne := (pos(movedTokenId := index + 1))(tid := 0)\<rparr>)
              else
                Inr (s1\<lparr>highRiskBatchIds := butlast ids,
                        highRiskIndexPlusOne := pos(tid := 0)\<rparr>)
          else Inr s1)"

definition requiredStake :: "contract \<Rightarrow> nat \<Rightarrow> nat" where
  "requiredStake s sev =
     (if sev = 1 then minStakeWei s
      else if sev = 2 then mediumStakeWei s
      else highStakeWei s)"

text \<open>\<^verbatim>\<open>_requireBatchExists\<close> is the test \<open>owners s tid \<noteq> 0\<close>, written where it is called.\<close>

section \<open>Item registration, custody, attestations and quarantine\<close>

text \<open>
  \<^verbatim>\<open>_mintBatchInternal\<close>. \<open>recovered\<close> is what the library's \<^verbatim>\<open>ECDSA.recover\<close> returns for
  the payload hash and the signature (\<open>None\<close>: it reverted); the signature itself is a list
  of bytes. The library's \<^verbatim>\<open>_mint\<close> refuses the zero receiver and a token that exists.
\<close>

definition mintBatchInternal ::
  "contract \<Rightarrow> address \<Rightarrow> nat \<Rightarrow> address option \<Rightarrow> address \<Rightarrow> string \<Rightarrow> string \<Rightarrow> string
     \<Rightarrow> nat \<Rightarrow> nat \<Rightarrow> string \<Rightarrow> bytes32 \<Rightarrow> nat list \<Rightarrow> error + (contract \<times> nat)" where
  "mintBatchInternal s msg_sender block_timestamp recovered to batchNo mName pName
       mfg expiry apiH pkgHash manufacturerSignature =
     (let profile = manufacturers s msg_sender in
      if \<not> active profile then Inl (Revert ''Manufacturer inactive'')
      else if \<not> length (licenseNo profile) > 0 then Inl (Revert ''Manufacturer license missing'')
      else if to = 0 then Inl (Revert ''Invalid recipient'')
      else if \<not> expiry > block_timestamp then Inl (Revert ''Expiry must be future'')
      else if \<not> mfg \<le> expiry then Inl (Revert ''Invalid mfg/expiry'')
      else if \<not> length manufacturerSignature > 0
        then Inl (Revert ''Manufacturer signature required'')
      else case recovered of
        None \<Rightarrow> Inl ECDSAInvalidSignature
      | Some signer \<Rightarrow>
          if signer \<noteq> msg_sender then Inl (Revert ''Invalid manufacturer signature'')
          else
            let tid = tokenIdCounter s in
            if tokenIdCounter s = UINT256_MAX then Inl Panic
            else if owners s tid \<noteq> 0 then Inl (ERC721InvalidSender 0)
            else if totalBatchesMinted s = UINT256_MAX then Inl Panic
            else Inr (s\<lparr>tokenIdCounter := tokenIdCounter s + 1,
                         owners := (owners s)(tid := to),
                         batches := (batches s)(tid :=
                           \<lparr>productName = pName, manufacturerName = mName,
                            manufacturerLicenseNo = licenseNo profile, batchNumber = batchNo,
                            mfgDate = mfg, expiryTimestamp = expiry, apiHash = apiH,
                            packagingHash = pkgHash, currentOwnerType = ''Manufacturer'',
                            currentCustodian = to, lastVerified = uint64 block_timestamp,
                            modelHash = [], batchOpenReports = 0, pendingSevereReports = 0,
                            quarantined = False, flaggedHighRisk = False\<rparr>),
                         totalBatchesMinted := totalBatchesMinted s + 1\<rparr>, tid))"

text \<open>\<^verbatim>\<open>mintBatch\<close>: \<open>uriHash\<close> is \<^verbatim>\<open>keccak256(bytes(tokenURI))\<close>.\<close>

definition mintBatch ::
  "contract \<Rightarrow> address \<Rightarrow> nat \<Rightarrow> address option \<Rightarrow> address \<Rightarrow> string \<Rightarrow> string \<Rightarrow> nat
     \<Rightarrow> string \<Rightarrow> bytes32 \<Rightarrow> nat list \<Rightarrow> error + (contract \<times> nat)" where
  "mintBatch s msg_sender block_timestamp recovered to batchNo mName expiry apiH uriHash
       manufacturerSignature =
     (if paused s then Inl EnforcedPause
      else if \<not> roles s MANUFACTURER_ROLE msg_sender
        then Inl (AccessControlUnauthorizedAccount msg_sender MANUFACTURER_ROLE)
      else mintBatchInternal s msg_sender block_timestamp recovered to batchNo mName
             ''Unknown Product'' (uint64 block_timestamp) (uint64 expiry) apiH uriHash
             manufacturerSignature)"

definition mintBatchWithCompliance ::
  "contract \<Rightarrow> address \<Rightarrow> nat \<Rightarrow> address option \<Rightarrow> address \<Rightarrow> string \<Rightarrow> string \<Rightarrow> string
     \<Rightarrow> nat \<Rightarrow> nat \<Rightarrow> string \<Rightarrow> bytes32 \<Rightarrow> nat list \<Rightarrow> error + (contract \<times> nat)" where
  "mintBatchWithCompliance s msg_sender block_timestamp recovered to batchNo mName pName
       mfg expiry apiH pkgHash manufacturerSignature =
     (if paused s then Inl EnforcedPause
      else if \<not> roles s MANUFACTURER_ROLE msg_sender
        then Inl (AccessControlUnauthorizedAccount msg_sender MANUFACTURER_ROLE)
      else mintBatchInternal s msg_sender block_timestamp recovered to batchNo mName pName
             mfg expiry apiH pkgHash manufacturerSignature)"

definition transferToNextOwner ::
  "contract \<Rightarrow> address \<Rightarrow> nat \<Rightarrow> nat \<Rightarrow> address \<Rightarrow> string \<Rightarrow> error + contract" where
  "transferToNextOwner s msg_sender block_timestamp tid newOwner newOwnerType =
     (if paused s then Inl EnforcedPause
      else if owners s tid = 0 then Inl (Revert ''Unknown batch'')
      else if owners s tid \<noteq> msg_sender then Inl (Revert ''Not token owner'')
      else if newOwner = 0 then Inl (ERC721InvalidReceiver 0)
      else Inr (s\<lparr>owners := (owners s)(tid := newOwner),
                   batches := (batches s)(tid := (batches s tid)
                     \<lparr>currentOwnerType := newOwnerType,
                      currentCustodian := newOwner,
                      lastVerified := uint64 block_timestamp\<rparr>)\<rparr>))"

definition recordCustodyCheckpoint ::
  "contract \<Rightarrow> address \<Rightarrow> nat \<Rightarrow> bytes32 \<Rightarrow> string \<Rightarrow> error + contract" where
  "recordCustodyCheckpoint s msg_sender tid locationHash ownerType =
     (if paused s then Inl EnforcedPause
      else if owners s tid = 0 then Inl (Revert ''Unknown batch'')
      else if \<not> (owners s tid = msg_sender \<or> roles s INSPECTOR_ROLE msg_sender
                 \<or> roles s REGULATOR_ROLE msg_sender)
        then Inl (Revert ''Not authorized'')
      else Inr s)"

definition submitLabAttestation ::
  "contract \<Rightarrow> address \<Rightarrow> nat \<Rightarrow> nat \<Rightarrow> bytes32 \<Rightarrow> bool \<Rightarrow> nat \<Rightarrow> error + contract" where
  "submitLabAttestation s msg_sender block_timestamp tid repHash pass conf =
     (if paused s then Inl EnforcedPause
      else if \<not> roles s LAB_ROLE msg_sender
        then Inl (AccessControlUnauthorizedAccount msg_sender LAB_ROLE)
      else if owners s tid = 0 then Inl (Revert ''Unknown batch'')
      else if \<not> labActive (labs s msg_sender) then Inl (Revert ''Lab inactive'')
      else if \<not> conf \<le> BPS_DENOMINATOR then Inl (Revert ''Invalid confidence'')
      else
        let s1 = s\<lparr>labAttestationsByBatch := (labAttestationsByBatch s)
                     (tid := labAttestationsByBatch s tid @
                        [\<lparr>lab = msg_sender, reportHash = repHash, passed = pass,
                          confidenceBps = conf, attestedAt = uint64 block_timestamp\<rparr>]),
                   batches := (batches s)(tid := (batches s tid)
                     \<lparr>lastVerified := uint64 block_timestamp\<rparr>)\<rparr>
        in if \<not> pass then setHighRisk s1 tid True else Inr s1)"

definition updateFederatedModel ::
  "contract \<Rightarrow> address \<Rightarrow> nat \<Rightarrow> nat \<Rightarrow> string \<Rightarrow> error + contract" where
  "updateFederatedModel s msg_sender block_timestamp tid newModelHash =
     (if paused s then Inl EnforcedPause
      else if owners s tid = 0 then Inl (Revert ''Unknown batch'')
      else if \<not> (roles s LAB_ROLE msg_sender \<or> roles s REGULATOR_ROLE msg_sender)
        then Inl (Revert ''Not authorized'')
      else Inr (s\<lparr>batches := (batches s)(tid := (batches s tid)
                     \<lparr>modelHash := newModelHash,
                      lastVerified := uint64 block_timestamp\<rparr>)\<rparr>))"

definition setBatchQuarantine ::
  "contract \<Rightarrow> address \<Rightarrow> nat \<Rightarrow> bool \<Rightarrow> string \<Rightarrow> error + contract" where
  "setBatchQuarantine s msg_sender tid quar reasonCode =
     (if paused s then Inl EnforcedPause
      else if \<not> roles s REGULATOR_ROLE msg_sender
        then Inl (AccessControlUnauthorizedAccount msg_sender REGULATOR_ROLE)
      else if owners s tid = 0 then Inl (Revert ''Unknown batch'')
      else
        let s1 = s\<lparr>batches := (batches s)(tid := (batches s tid)\<lparr>quarantined := quar\<rparr>)\<rparr>
        in if quar then setHighRisk s1 tid True
           else if pendingSevereReports (batches s1 tid) = 0 then setHighRisk s1 tid False
           else Inr s1)"

section \<open>The report ledger\<close>

text \<open>
  \<^verbatim>\<open>reportSuspiciousBatch\<close>. The checks come in the source's order; the state is written only
  after the last of them. \<open>msg_value\<close> is the stake sent with the call.
\<close>

definition reportSuspiciousBatch ::
  "contract \<Rightarrow> address \<Rightarrow> nat \<Rightarrow> nat \<Rightarrow> nat \<Rightarrow> bytes32 \<Rightarrow> string \<Rightarrow> string \<Rightarrow> nat
     \<Rightarrow> error + (contract \<times> nat)" where
  "reportSuspiciousBatch s msg_sender msg_value block_timestamp tid nullifier evidence why sev =
     (let prof = reporterProfiles s msg_sender in
      if paused s then Inl EnforcedPause
      else if owners s tid = 0 then Inl (Revert ''Unknown batch'')
      else if nullifier = 0 then Inl (Revert ''Identity nullifier required'')
      else if identityNullifierUsed s nullifier then Inl (Revert ''Nullifier already used'')
      else if \<not> (sev \<ge> 1 \<and> sev \<le> 3) then Inl (Revert ''Severity must be 1-3'')
      else if blocked prof then Inl (Revert ''Reporter blocked'')
      else if hasOpenReportForBatch s msg_sender tid
        then Inl (Revert ''Open report already exists for this batch'')
      else if \<not> openReports prof < maxOpenReportsPerReporter s
        then Inl (Revert ''Too many open reports'')
      else if lastReportAt prof \<noteq> 0 \<and> UINT256_MAX < lastReportAt prof + reportCooldownSec s
        then Inl Panic
      else if lastReportAt prof \<noteq> 0
              \<and> \<not> block_timestamp \<ge> lastReportAt prof + reportCooldownSec s
        then Inl (Revert ''Reporter cooldown active'')
      else if sev = 3 \<and> \<not> reputation prof \<ge> minReputationForSeverityThree s
        then Inl (Revert ''Reputation too low for severity-3'')
      else if \<not> msg_value \<ge> requiredStake s sev then Inl (Revert ''Stake too low'')
      else if reportIdCounter s = UINT256_MAX then Inl Panic
      else if reportsSubmitted prof = UINT32_MAX then Inl Panic
      else if openReports prof = UINT32_MAX then Inl Panic
      else if batchOpenReports (batches s tid) = UINT32_MAX then Inl Panic
      else if sev = 3 \<and> pendingSevereReports (batches s tid) = UINT32_MAX then Inl Panic
      else if totalReportsFiled s = UINT256_MAX then Inl Panic
      else if totalOpenReports s = UINT256_MAX then Inl Panic
      else
        let rid = reportIdCounter s;
            s1 = s\<lparr>reportIdCounter := reportIdCounter s + 1,
                   reports := (reports s)(rid :=
                     \<lparr>reportId = rid, tokenId = tid, reporter = msg_sender,
                      identityNullifier = nullifier, evidenceURI = evidence, reason = why,
                      severity = sev, stakeAmount = msg_value,
                      createdAt = uint64 block_timestamp, resolvedAt = 0,
                      status = Pending, resolver = 0\<rparr>),
                   identityNullifierUsed := (identityNullifierUsed s)(nullifier := True),
                   reportsByBatch := (reportsByBatch s)(tid := reportsByBatch s tid @ [rid]),
                   hasOpenReportForBatch := (hasOpenReportForBatch s)
                     (msg_sender := (hasOpenReportForBatch s msg_sender)(tid := True)),
                   reporterProfiles := (reporterProfiles s)(msg_sender := prof
                     \<lparr>reportsSubmitted := reportsSubmitted prof + 1,
                      openReports := openReports prof + 1,
                      lastReportAt := uint64 block_timestamp\<rparr>),
                   batches := (batches s)(tid := (batches s tid)
                     \<lparr>batchOpenReports := batchOpenReports (batches s tid) + 1,
                      pendingSevereReports :=
                        (if sev = 3 then pendingSevereReports (batches s tid) + 1
                         else pendingSevereReports (batches s tid))\<rparr>),
                   totalReportsFiled := totalReportsFiled s + 1,
                   totalOpenReports := totalOpenReports s + 1\<rparr>
        in if sev = 3
           then (case setHighRisk s1 tid True of
                   Inl e \<Rightarrow> Inl e
                 | Inr s2 \<Rightarrow> Inr (s2, rid))
           else Inr (s1, rid))"

text \<open>
  \<^verbatim>\<open>resolveReport\<close>, in the source's three parts. The first is the bookkeeping both outcomes
  share: resolver and time, and the counters decremented with a floor at zero
  (\<^verbatim>\<open>if (x > 0) { x -= 1; }\<close>).
\<close>

definition decFloor :: "nat \<Rightarrow> nat" where
  "decFloor x = (if x > 0 then x - 1 else x)"

definition resolveShared :: "contract \<Rightarrow> address \<Rightarrow> nat \<Rightarrow> nat \<Rightarrow> contract" where
  "resolveShared s msg_sender block_timestamp rid =
     (let report = reports s rid;
          tid = tokenId report;
          who = reporter report;
          batch = batches s tid;
          prof = reporterProfiles s who
      in s\<lparr>reports := (reports s)(rid := report
              \<lparr>resolver := msg_sender, resolvedAt := uint64 block_timestamp\<rparr>),
            batches := (batches s)(tid := batch
              \<lparr>batchOpenReports := decFloor (batchOpenReports batch),
               pendingSevereReports :=
                 (if severity report = 3 \<and> pendingSevereReports batch > 0
                  then pendingSevereReports batch - 1
                  else pendingSevereReports batch)\<rparr>),
            reporterProfiles := (reporterProfiles s)(who := prof
              \<lparr>openReports := decFloor (openReports prof)\<rparr>),
            hasOpenReportForBatch := (hasOpenReportForBatch s)
              (who := (hasOpenReportForBatch s who)(tid := False)),
            totalOpenReports := decFloor (totalOpenReports s)\<rparr>)"

text \<open>
  The branch \<^verbatim>\<open>confirmedFake\<close>: the reward is the base reward times the severity, capped
  by the pool; the result is the new storage and \<^verbatim>\<open>payoutWei\<close>.
\<close>

definition resolveConfirmed :: "contract \<Rightarrow> nat \<Rightarrow> error + (contract \<times> nat)" where
  "resolveConfirmed s rid =
     (let report = reports s rid;
          tid = tokenId report;
          who = reporter report;
          prof = reporterProfiles s who
      in
      if totalConfirmedFakeReports s = UINT256_MAX then Inl Panic
      else if reportsConfirmed prof = UINT32_MAX then Inl Panic
      else if INT256_MAX < reputation prof + int (10 + severity report * 4) then Inl Panic
      else if UINT256_MAX < baseRewardWei s * severity report then Inl Panic
      else
        let rewardWei = (if baseRewardWei s * severity report > bountyPoolWei s
                         then bountyPoolWei s else baseRewardWei s * severity report)
        in
        if rewardWei > 0 \<and> bountyPoolWei s < rewardWei then Inl Panic
        else if rewardWei > 0 \<and> UINT256_MAX < stakeAmount report + rewardWei then Inl Panic
        else
          let s1 = s\<lparr>reports := (reports s)(rid := report\<lparr>status := ConfirmedFake\<rparr>),
                     totalConfirmedFakeReports := totalConfirmedFakeReports s + 1,
                     reporterProfiles := (reporterProfiles s)(who := prof
                       \<lparr>reportsConfirmed := reportsConfirmed prof + 1,
                        reputation := reputation prof + int (10 + severity report * 4)\<rparr>),
                     bountyPoolWei :=
                       (if rewardWei > 0 then bountyPoolWei s - rewardWei else bountyPoolWei s),
                     batches := (batches s)(tid := (batches s tid)\<lparr>quarantined := True\<rparr>)\<rparr>;
              payoutWei = (if rewardWei > 0 then stakeAmount report + rewardWei
                           else stakeAmount report)
          in case setHighRisk s1 tid True of
               Inl e \<Rightarrow> Inl e
             | Inr s2 \<Rightarrow> Inr (s2, payoutWei))"

text \<open>The branch of a rejected report: the slash goes to the pool, the rest is paid out.\<close>

definition resolveRejected :: "contract \<Rightarrow> nat \<Rightarrow> error + (contract \<times> nat)" where
  "resolveRejected s rid =
     (let report = reports s rid;
          tid = tokenId report;
          who = reporter report;
          prof = reporterProfiles s who
      in
      if reportsRejected prof = UINT32_MAX then Inl Panic
      else if reputation prof - int (12 + severity report * 6) < INT256_MIN then Inl Panic
      else if UINT256_MAX < stakeAmount report * falseReportSlashBps s then Inl Panic
      else
        let slashedWei = (stakeAmount report * falseReportSlashBps s) div BPS_DENOMINATOR in
        if UINT256_MAX < bountyPoolWei s + slashedWei then Inl Panic
        else if stakeAmount report < slashedWei then Inl Panic
        else
          let newReputation = reputation prof - int (12 + severity report * 6);
              s1 = s\<lparr>reports := (reports s)(rid := report\<lparr>status := RejectedFalse\<rparr>),
                     reporterProfiles := (reporterProfiles s)(who := prof
                       \<lparr>reportsRejected := reportsRejected prof + 1,
                        reputation := newReputation,
                        blocked := (if newReputation \<le> - 100 then True else blocked prof)\<rparr>),
                     bountyPoolWei := bountyPoolWei s + slashedWei\<rparr>;
              payoutWei = stakeAmount report - slashedWei
          in
          if \<not> quarantined (batches s1 tid) \<and> pendingSevereReports (batches s1 tid) = 0
          then (case setHighRisk s1 tid False of
                  Inl e \<Rightarrow> Inl e
                | Inr s2 \<Rightarrow> Inr (s2, payoutWei))
          else Inr (s1, payoutWei))"

section \<open>The inherited entry points\<close>

text \<open>
  The role administration of the library's \<^verbatim>\<open>AccessControl\<close> and the token transfer of its
  \<^verbatim>\<open>ERC721\<close> are external functions of the deployed contract too. The contract never calls
  \<^verbatim>\<open>_setRoleAdmin\<close>, so the admin of every role is \<^verbatim>\<open>DEFAULT_ADMIN_ROLE\<close>. The approvals of
  \<^verbatim>\<open>ERC721\<close> are not part of the model: \<open>approved\<close> is the outcome of the library's approval
  check for a caller who is not the owner, \<^verbatim>\<open>approve\<close> and \<^verbatim>\<open>setApprovalForAll\<close> write
  nothing the model holds, and \<^verbatim>\<open>safeTransferFrom\<close> moves the token as \<^verbatim>\<open>transferFrom\<close>
  does. The library has no entry point that burns a token.
\<close>

definition grantRole :: "contract \<Rightarrow> address \<Rightarrow> role \<Rightarrow> address \<Rightarrow> error + contract" where
  "grantRole s msg_sender r account =
     (if \<not> roles s DEFAULT_ADMIN_ROLE msg_sender
        then Inl (AccessControlUnauthorizedAccount msg_sender DEFAULT_ADMIN_ROLE)
      else Inr (s\<lparr>roles := (roles s)(r := (roles s r)(account := True))\<rparr>))"

definition revokeRole :: "contract \<Rightarrow> address \<Rightarrow> role \<Rightarrow> address \<Rightarrow> error + contract" where
  "revokeRole s msg_sender r account =
     (if \<not> roles s DEFAULT_ADMIN_ROLE msg_sender
        then Inl (AccessControlUnauthorizedAccount msg_sender DEFAULT_ADMIN_ROLE)
      else Inr (s\<lparr>roles := (roles s)(r := (roles s r)(account := False))\<rparr>))"

definition renounceRole :: "contract \<Rightarrow> address \<Rightarrow> role \<Rightarrow> address \<Rightarrow> error + contract" where
  "renounceRole s msg_sender r callerConfirmation =
     (if callerConfirmation \<noteq> msg_sender then Inl AccessControlBadConfirmation
      else Inr (s\<lparr>roles := (roles s)(r := (roles s r)(msg_sender := False))\<rparr>))"

definition transferFrom ::
  "contract \<Rightarrow> address \<Rightarrow> bool \<Rightarrow> address \<Rightarrow> address \<Rightarrow> nat \<Rightarrow> error + contract" where
  "transferFrom s msg_sender approved src to tid =
     (if to = 0 then Inl (ERC721InvalidReceiver 0)
      else if owners s tid = 0 then Inl (ERC721NonexistentToken tid)
      else if owners s tid \<noteq> msg_sender \<and> \<not> approved
        then Inl (ERC721InsufficientApproval msg_sender tid)
      else if owners s tid \<noteq> src then Inl (ERC721IncorrectOwner src tid (owners s tid))
      else Inr (s\<lparr>owners := (owners s)(tid := to)\<rparr>))"

section \<open>Value transfers and the reentrancy guard\<close>

text \<open>
  Two functions send value with \<^verbatim>\<open>call{value: v}\<close>: \<^verbatim>\<open>withdrawBountyPool\<close> to the
  receiver and \<^verbatim>\<open>resolveReport\<close> to the reporter. The call hands control to the payee,
  which may call the contract before it returns. Both transfers come after the function's
  last write to the storage, so the payee's calls run one after the other against the
  storage the function has written, and what they leave is the storage when the function
  returns. \<open>sent\<close> is the outcome of the transfer: when it is false the function reverts,
  and whatever the payee did is undone with it.

  The entry points without \<^verbatim>\<open>nonReentrant\<close> are the datatype \<open>entry\<close>, and \<open>execEntry\<close>
  runs one of them. None of them makes an external call.
\<close>

datatype entry =
    Receive address nat
  | RegisterManufacturer address address string string bool
  | RegisterLab address address string bool
  | SetInspector address address bool
  | SetReporterBlocked address address bool
  | SetPolicyParameters address nat nat nat nat nat nat nat int
  | FundBountyPool address nat
  | MintBatch address nat "address option" address string string nat string bytes32 "nat list"
  | MintBatchWithCompliance address nat "address option" address string string string
      nat nat string bytes32 "nat list"
  | TransferToNextOwner address nat nat address string
  | RecordCustodyCheckpoint address nat bytes32 string
  | SubmitLabAttestation address nat nat bytes32 bool nat
  | UpdateFederatedModel address nat nat string
  | SetBatchQuarantine address nat bool string
  | PauseCall address
  | UnpauseCall address
  | GrantRole address role address
  | RevokeRole address role address
  | RenounceRole address role address
  | TransferFrom address bool address address nat

fun execEntry :: "contract \<Rightarrow> entry \<Rightarrow> error + contract" where
  "execEntry s (Receive a v) = receive s a v"
| "execEntry s (RegisterManufacturer a m l n b) = registerManufacturer s a m l n b"
| "execEntry s (RegisterLab a l i b) = registerLab s a l i b"
| "execEntry s (SetInspector a i b) = setInspector s a i b"
| "execEntry s (SetReporterBlocked a w b) = setReporterBlocked s a w b"
| "execEntry s (SetPolicyParameters a p1 p2 p3 p4 p5 p6 p7 p8) =
     setPolicyParameters s a p1 p2 p3 p4 p5 p6 p7 p8"
| "execEntry s (FundBountyPool a v) = fundBountyPool s a v"
| "execEntry s (MintBatch a now rec to bn mn ex ah uh sg) =
     map_sum id fst (mintBatch s a now rec to bn mn ex ah uh sg)"
| "execEntry s (MintBatchWithCompliance a now rec to bn mn pn mf ex ah ph sg) =
     map_sum id fst (mintBatchWithCompliance s a now rec to bn mn pn mf ex ah ph sg)"
| "execEntry s (TransferToNextOwner a now t n ty) = transferToNextOwner s a now t n ty"
| "execEntry s (RecordCustodyCheckpoint a t l ty) = recordCustodyCheckpoint s a t l ty"
| "execEntry s (SubmitLabAttestation a now t h p c) = submitLabAttestation s a now t h p c"
| "execEntry s (UpdateFederatedModel a now t m) = updateFederatedModel s a now t m"
| "execEntry s (SetBatchQuarantine a t q rc) = setBatchQuarantine s a t q rc"
| "execEntry s (PauseCall a) = pause s a"
| "execEntry s (UnpauseCall a) = unpause s a"
| "execEntry s (GrantRole a r x) = grantRole s a r x"
| "execEntry s (RevokeRole a r x) = revokeRole s a r x"
| "execEntry s (RenounceRole a r x) = renounceRole s a r x"
| "execEntry s (TransferFrom a ap f t i) = transferFrom s a ap f t i"

text \<open>
  A call that the payee makes during a transfer (\<open>nested\<close>) is one of these entries, or a
  call of one of the three \<^verbatim>\<open>nonReentrant\<close> functions. Such a call finds the guard entered
  and reverts with \<^verbatim>\<open>ReentrancyGuardReentrantCall\<close>, unless a modifier that the source puts
  before \<^verbatim>\<open>nonReentrant\<close> reverts first. A nested call that reverts leaves the storage as
  it was and returns to the payee, which goes on (a payee that lets the revert through
  fails itself, which is \<open>sent = False\<close>). \<open>runNested\<close> is the storage after the payee's
  calls.
\<close>

datatype nested =
    NestedEntry entry
  | NestedWithdrawBountyPool address nat address
  | NestedReportSuspiciousBatch address nat nat nat bytes32 string string nat
  | NestedResolveReport address nat nat bool

fun execNested :: "contract \<Rightarrow> nested \<Rightarrow> error + contract" where
  "execNested s (NestedEntry u) = execEntry s u"
| "execNested s (NestedWithdrawBountyPool a amount to) =
     (if \<not> roles s DEFAULT_ADMIN_ROLE a
        then Inl (AccessControlUnauthorizedAccount a DEFAULT_ADMIN_ROLE)
      else Inl ReentrancyGuardReentrantCall)"
| "execNested s (NestedReportSuspiciousBatch a v now t n e r sev) =
     (if paused s then Inl EnforcedPause else Inl ReentrancyGuardReentrantCall)"
| "execNested s (NestedResolveReport a now r c) =
     (if paused s then Inl EnforcedPause
      else if \<not> roles s REGULATOR_ROLE a
        then Inl (AccessControlUnauthorizedAccount a REGULATOR_ROLE)
      else Inl ReentrancyGuardReentrantCall)"

definition applyNested :: "contract \<Rightarrow> nested \<Rightarrow> contract" where
  "applyNested s c = (case execNested s c of Inl e \<Rightarrow> s | Inr s' \<Rightarrow> s')"

fun runNested :: "contract \<Rightarrow> nested list \<Rightarrow> contract" where
  "runNested s [] = s"
| "runNested s (c # cs) = runNested (applyNested s c) cs"

text \<open>
  \<^verbatim>\<open>withdrawBountyPool\<close>: the debit is guarded by the \<^verbatim>\<open>require\<close> and written before the
  transfer; \<open>sent\<close> is the outcome of the transfer to the receiver and \<open>callback\<close> the calls
  the receiver makes during it. At the top level of a transaction the guard is free, so
  \<^verbatim>\<open>nonReentrant\<close> has no clause here nor in the two functions of the report ledger.
\<close>

definition withdrawBountyPool ::
  "contract \<Rightarrow> address \<Rightarrow> bool \<Rightarrow> nested list \<Rightarrow> nat \<Rightarrow> address \<Rightarrow> error + contract" where
  "withdrawBountyPool s msg_sender sent callback amount to =
     (if \<not> roles s DEFAULT_ADMIN_ROLE msg_sender
        then Inl (AccessControlUnauthorizedAccount msg_sender DEFAULT_ADMIN_ROLE)
      else if to = 0 then Inl (Revert ''Invalid receiver'')
      else if \<not> amount \<le> bountyPoolWei s then Inl (Revert ''Insufficient bounty pool'')
      else if \<not> sent then Inl (Revert ''Transfer failed'')
      else Inr (runNested (s\<lparr>bountyPoolWei := bountyPoolWei s - amount\<rparr>) callback))"

text \<open>
  \<^verbatim>\<open>resolveReport\<close>: the modifiers, the two \<^verbatim>\<open>require\<close>s, the shared part, one branch, and
  the payout to the reporter, which is made only when the amount is positive; \<open>sent\<close> is
  its outcome and \<open>callback\<close> the calls the reporter makes during it. The result is the
  storage when the function returns and the amount paid out.
\<close>

definition resolveReport ::
  "contract \<Rightarrow> address \<Rightarrow> nat \<Rightarrow> bool \<Rightarrow> nested list \<Rightarrow> nat \<Rightarrow> bool
     \<Rightarrow> error + (contract \<times> nat)" where
  "resolveReport s msg_sender block_timestamp sent callback rid confirmedFake =
     (if paused s then Inl EnforcedPause
      else if \<not> roles s REGULATOR_ROLE msg_sender
        then Inl (AccessControlUnauthorizedAccount msg_sender REGULATOR_ROLE)
      else if \<not> reporter (reports s rid) \<noteq> 0 then Inl (Revert ''Unknown report'')
      else if \<not> status (reports s rid) = Pending then Inl (Revert ''Already resolved'')
      else
        case (if confirmedFake
              then resolveConfirmed (resolveShared s msg_sender block_timestamp rid) rid
              else resolveRejected (resolveShared s msg_sender block_timestamp rid) rid) of
          Inl e \<Rightarrow> Inl e
        | Inr (s2, payoutWei) \<Rightarrow>
            if payoutWei > 0
            then (if \<not> sent then Inl (Revert ''Payout failed'')
                  else Inr (runNested s2 callback, payoutWei))
            else Inr (s2, payoutWei))"

section \<open>Transactions\<close>

text \<open>
  A transaction is one call of an external function: an entry, or one of the three
  \<^verbatim>\<open>nonReentrant\<close> functions. \<open>exec\<close> runs it; \<open>apply_call\<close> is the storage after the
  transaction, which is the storage before it when the call reverts; \<open>run\<close> applies a
  sequence of transactions. The reachable states are the \<open>run (constructor d) cs\<close>.
\<close>

datatype call =
    Entry entry
  | WithdrawBountyPool address bool "nested list" nat address
  | ReportSuspiciousBatch address nat nat nat bytes32 string string nat
  | ResolveReport address nat bool "nested list" nat bool

fun exec :: "contract \<Rightarrow> call \<Rightarrow> error + contract" where
  "exec s (Entry u) = execEntry s u"
| "exec s (WithdrawBountyPool a sent cb amount to) = withdrawBountyPool s a sent cb amount to"
| "exec s (ReportSuspiciousBatch a v now t n e r sev) =
     map_sum id fst (reportSuspiciousBatch s a v now t n e r sev)"
| "exec s (ResolveReport a now sent cb r c) =
     map_sum id fst (resolveReport s a now sent cb r c)"

definition apply_call :: "contract \<Rightarrow> call \<Rightarrow> contract" where
  "apply_call s c = (case exec s c of Inl e \<Rightarrow> s | Inr s' \<Rightarrow> s')"

fun run :: "contract \<Rightarrow> call list \<Rightarrow> contract" where
  "run s [] = s"
| "run s (c # cs) = run (apply_call s c) cs"

section \<open>Concrete ledgers\<close>

text \<open>
  Small reachable states on which the theorems below are exercised. Address \<open>1\<close> deploys
  the contract (and so holds every role), address \<open>2\<close> is a reporter, and the first
  transaction mints token \<open>0\<close>.
\<close>

definition mintToken0 :: call where
  "mintToken0 =
     Entry (MintBatchWithCompliance 1 100 (Some 1) 1 ''PG-001'' ''Maker'' ''Amoxicillin 500''
       50 1000 ''api-hash'' 7 [1])"

definition demoLedger :: contract where
  "demoLedger = run (constructor 1)
     [mintToken0,
      ReportSuspiciousBatch 2 5000000000000000 200 0 9 ''ipfs://weak-proof'' ''odd'' 2]"

definition demoFunded :: contract where
  "demoFunded = run (constructor 1)
     [mintToken0,
      Entry (FundBountyPool 1 3000000000000000),
      ReportSuspiciousBatch 2 5000000000000000 200 0 9 ''ipfs://fake-proof'' ''seal'' 2]"

text \<open>
  Four more traces. In \<open>twoOpenThenCap\<close> a reporter files two reports, on tokens \<open>0\<close>
  and \<open>1\<close>, and the regulator then sets \<open>maxOpenReportsPerReporter\<close> to \<open>1\<close>. In
  \<open>blockedThenUnblocked\<close> the regulator blocks a reporter and unblocks it again. In
  \<open>confirmedThenReleased\<close> a report on token \<open>0\<close> is confirmed fake and the regulator
  then lifts the quarantine. In \<open>failedLabThenRejected\<close> a lab attestation of token \<open>0\<close>
  fails and an unrelated severity-1 report on it is then rejected.
\<close>

definition mintToken1 :: call where
  "mintToken1 =
     Entry (MintBatchWithCompliance 1 100 (Some 1) 1 ''PG-002'' ''Maker'' ''Ibuprofen 200''
       50 1000 ''api-hash'' 8 [1])"



definition blockedOnce :: contract where
  "blockedOnce = run (constructor 1) [Entry (SetReporterBlocked 1 2 True)]"

definition blockedThenUnblocked :: contract where
  "blockedThenUnblocked = run blockedOnce [Entry (SetReporterBlocked 1 2 False)]"


definition failedLabThenRejected :: contract where
  "failedLabThenRejected = run (constructor 1)
     [mintToken0,
      Entry (SubmitLabAttestation 1 150 0 77 False 9000),
      ReportSuspiciousBatch 2 2000000000000000 200 0 9 ''ipfs://a'' ''odd print'' 1,
      ResolveReport 1 300 True [] 0 False]"


definition rejectedRound :: "nat \<Rightarrow> call list" where
  "rejectedRound k =
     [ReportSuspiciousBatch 2 5000000000000000 (200 + 30000 * k) 0 (9 + k)
        ''ipfs://weak-proof'' ''odd'' 2,
      ResolveReport 1 (300 + 30000 * k) True [] k False]"

definition fourRejections :: contract where
  "fourRejections = run (constructor 1)
     (mintToken0 # rejectedRound 0 @ rejectedRound 1 @ rejectedRound 2 @ rejectedRound 3 @
      [ReportSuspiciousBatch 2 5000000000000000 120200 0 13 ''ipfs://weak-proof'' ''odd'' 2])"

definition mintedOnce :: contract where
  "mintedOnce = run (constructor 1) [mintToken0]"

text \<open>
  Payees that call back. In \<open>forwardedRefund\<close> and \<open>forwardedReward\<close> the reporter at
  address \<open>2\<close> is a contract whose fallback sends what it is paid on to the
  \<^verbatim>\<open>PharmaBatchNFT\<close> contract, which takes it in \<^verbatim>\<open>receive\<close>: the report of \<open>demoLedger\<close>
  is rejected (stake \<open>5000000000000000\<close>, of which \<open>1500000000000000\<close> is paid back), that
  of \<open>demoFunded\<close> is confirmed (stake \<open>5000000000000000\<close> and reward \<open>3000000000000000\<close>).
  In \<open>withdrawnAndReturned\<close> the receiver of a withdrawal of \<open>1000\<close> wei does the same;
  the contract itself is such a receiver.
\<close>

definition forwardedRefund :: "error + (contract \<times> nat)" where
  "forwardedRefund =
     resolveReport demoLedger 1 300 True [NestedEntry (Receive 2 1500000000000000)] 0 False"

definition forwardedReward :: "error + (contract \<times> nat)" where
  "forwardedReward =
     resolveReport demoFunded 1 300 True [NestedEntry (Receive 2 8000000000000000)] 0 True"

definition withdrawnAndReturned :: "error + contract" where
  "withdrawnAndReturned =
     withdrawBountyPool demoFunded 1 True [NestedEntry (Receive 99 1000)] 1000 99"

section \<open>Invariants and the specification's reading of the index\<close>

text \<open>
  The swap-remove structure is coherent when the dense array has no duplicate, holds
  exactly the flagged tokens, and the position map is nonzero exactly on the tokens of the
  array, where it is the token's slot plus one.
\<close>

definition indexCoherent :: "contract \<Rightarrow> bool" where
  "indexCoherent s \<longleftrightarrow>
     distinct (highRiskBatchIds s)
     \<and> (\<forall>t. flaggedHighRisk (batches s t) = (t \<in> set (highRiskBatchIds s)))
     \<and> (\<forall>t. (highRiskIndexPlusOne s t \<noteq> 0) = (t \<in> set (highRiskBatchIds s)))
     \<and> (\<forall>i. i < length (highRiskBatchIds s) \<longrightarrow>
            highRiskIndexPlusOne s (highRiskBatchIds s ! i) = i + 1)"

text \<open>The pending severity-3 reports filed against a token.\<close>

definition pendingSevere :: "contract \<Rightarrow> nat \<Rightarrow> nat set" where
  "pendingSevere s t =
     {i. i < reportIdCounter s \<and> tokenId (reports s i) = t
           \<and> severity (reports s i) = 3 \<and> status (reports s i) = Pending}"

text \<open>
  The invariant of the ledger: the index is coherent; a stored report has an id below the
  counter and is about a token that exists; a flagged token exists; a quarantined token and
  a token with a nonzero pending-severe counter are flagged; and that counter is the number
  of pending severity-3 reports against the token.
\<close>

definition ledgerInv :: "contract \<Rightarrow> bool" where
  "ledgerInv s \<longleftrightarrow>
     indexCoherent s
     \<and> (\<forall>i. reporter (reports s i) \<noteq> 0 \<longrightarrow> i < reportIdCounter s)
     \<and> (\<forall>i. i < reportIdCounter s \<longrightarrow> owners s (tokenId (reports s i)) \<noteq> 0)
     \<and> (\<forall>t. flaggedHighRisk (batches s t) \<longrightarrow> owners s t \<noteq> 0)
     \<and> (\<forall>t. quarantined (batches s t) \<or> pendingSevereReports (batches s t) > 0
            \<longrightarrow> flaggedHighRisk (batches s t))
     \<and> (\<forall>t. pendingSevereReports (batches s t) = card (pendingSevere s t))"

text \<open>
  A sequence of \<^verbatim>\<open>_setHighRisk\<close> calls, stopping at the first that fails, and the
  specification's reading of its outcome: a token is in the index when some
  \<open>setFlag (t, true)\<close> of the sequence is followed by no later \<open>setFlag (t, false)\<close>.
\<close>

fun setFlags :: "contract \<Rightarrow> (nat \<times> bool) list \<Rightarrow> error + contract" where
  "setFlags s [] = Inr s"
| "setFlags s (f # fs) =
     (case setHighRisk s (fst f) (snd f) of
        Inl e \<Rightarrow> Inl e
      | Inr s' \<Rightarrow> setFlags s' fs)"

definition inIndexBySpec :: "(nat \<times> bool) list \<Rightarrow> nat \<Rightarrow> bool" where
  "inIndexBySpec fs t \<longleftrightarrow>
     (\<exists>i. i < length fs \<and> fs ! i = (t, True)
          \<and> (\<forall>j. i < j \<and> j < length fs \<longrightarrow> fs ! j \<noteq> (t, False)))"




text \<open>
  An unblocking of \<open>who\<close> that takes effect: a \<open>setReporterBlocked (who, false)\<close> whose
  caller holds \<^verbatim>\<open>REGULATOR_ROLE\<close> when it runs, so that the call does not revert. It can be
  a transaction of its own (\<open>entryUnblocks\<close>) or a call that a payee makes during a
  transfer (\<open>callbackUnblocks\<close>, which follows the storage through the payee's calls;
  the transfer is reached when the function, run without the payee's calls, returns).
  \<open>neverUnblocked\<close> holds of a sequence of transactions from a state when none of them
  holds such a call.
\<close>

fun entryUnblocks :: "address \<Rightarrow> contract \<Rightarrow> entry \<Rightarrow> bool" where
  "entryUnblocks who s (SetReporterBlocked a w b) =
     (w = who \<and> \<not> b \<and> roles s REGULATOR_ROLE a)"
| "entryUnblocks who s u = False"

fun nestedUnblocks :: "address \<Rightarrow> contract \<Rightarrow> nested \<Rightarrow> bool" where
  "nestedUnblocks who s (NestedEntry u) = entryUnblocks who s u"
| "nestedUnblocks who s c = False"

fun callbackUnblocks :: "address \<Rightarrow> contract \<Rightarrow> nested list \<Rightarrow> bool" where
  "callbackUnblocks who s [] = False"
| "callbackUnblocks who s (c # cs) =
     (nestedUnblocks who s c \<or> callbackUnblocks who (applyNested s c) cs)"

fun callUnblocks :: "address \<Rightarrow> contract \<Rightarrow> call \<Rightarrow> bool" where
  "callUnblocks who s (Entry u) = entryUnblocks who s u"
| "callUnblocks who s (WithdrawBountyPool a sent cb amount to) =
     (case withdrawBountyPool s a sent [] amount to of
        Inl e \<Rightarrow> False
      | Inr s1 \<Rightarrow> callbackUnblocks who s1 cb)"
| "callUnblocks who s (ReportSuspiciousBatch a v now t n e r sev) = False"
| "callUnblocks who s (ResolveReport a now sent cb r c) =
     (case resolveReport s a now sent [] r c of
        Inl e \<Rightarrow> False
      | Inr (s1, p) \<Rightarrow> p > 0 \<and> callbackUnblocks who s1 cb)"

fun neverUnblocked :: "address \<Rightarrow> contract \<Rightarrow> call list \<Rightarrow> bool" where
  "neverUnblocked who s [] = True"
| "neverUnblocked who s (c # cs) =
     (\<not> callUnblocks who s c \<and> neverUnblocked who (apply_call s c) cs)"

section \<open>Evaluation and frame lemmas\<close>

lemmas eval_defs =
  apply_call_def constructor_def mintToken0_def mintToken1_def mintBatchWithCompliance_def
  mintBatchInternal_def reportSuspiciousBatch_def resolveReport_def resolveShared_def
  resolveRejected_def resolveConfirmed_def setHighRisk_def requiredStake_def decFloor_def
  uint64_def UINT256_MAX_def UINT32_MAX_def INT256_MAX_def INT256_MIN_def
  BPS_DENOMINATOR_def Let_def zeroReporterProfile_def zeroBatch_def zeroFakeReport_def
  zeroManufacturerProfile_def zeroLabProfile_def fundBountyPool_def receive_def
  withdrawBountyPool_def setReporterBlocked_def setPolicyParameters_def
  submitLabAttestation_def setBatchQuarantine_def pause_def unpause_def
  rejectedRound_def applyNested_def

lemma decFloor_eq: "decFloor x = x - 1"
  by (simp add: decFloor_def)

lemma if_gt_min: "(if a > b then b else a) = min a (b::nat)"
  by simp

lemma if_pos_sub: "(if 0 < r then p - r else p) = p - (r::nat)"
  by simp

lemma if_pos_add: "(if 0 < r then st + r else st) = st + (r::nat)"
  by simp

lemma setHighRisk_frame:
  assumes "setHighRisk s t b = Inr s'"
  shows "bountyPoolWei s' = bountyPoolWei s"
    and "reporterProfiles s' = reporterProfiles s"
    and "reports s' = reports s"
    and "reportIdCounter s' = reportIdCounter s"
    and "tokenIdCounter s' = tokenIdCounter s"
    and "identityNullifierUsed s' = identityNullifierUsed s"
    and "hasOpenReportForBatch s' = hasOpenReportForBatch s"
    and "paused s' = paused s"
    and "roles s' = roles s"
    and "owners s' = owners s"
    and "maxOpenReportsPerReporter s' = maxOpenReportsPerReporter s"
    and "labAttestationsByBatch s' = labAttestationsByBatch s"
  using assms by (auto simp: setHighRisk_def Let_def split: if_splits)

lemma resolveShared_fields:
  "bountyPoolWei (resolveShared s a t rid) = bountyPoolWei s"
  "falseReportSlashBps (resolveShared s a t rid) = falseReportSlashBps s"
  "baseRewardWei (resolveShared s a t rid) = baseRewardWei s"
  "stakeAmount (reports (resolveShared s a t rid) rid) = stakeAmount (reports s rid)"
  "severity (reports (resolveShared s a t rid) rid) = severity (reports s rid)"
  "reporter (reports (resolveShared s a t rid) rid) = reporter (reports s rid)"
  "tokenId (reports (resolveShared s a t rid) rid) = tokenId (reports s rid)"
  "reputation (reporterProfiles (resolveShared s a t rid) w) = reputation (reporterProfiles s w)"
  "blocked (reporterProfiles (resolveShared s a t rid) w) = blocked (reporterProfiles s w)"
  by (simp_all add: resolveShared_def Let_def)

lemma resolveRejected_result:
  assumes "resolveRejected s rid = Inr (s', payoutWei)"
  shows "payoutWei = stakeAmount (reports s rid)
            - (stakeAmount (reports s rid) * falseReportSlashBps s) div BPS_DENOMINATOR"
    and "(stakeAmount (reports s rid) * falseReportSlashBps s) div BPS_DENOMINATOR
            \<le> stakeAmount (reports s rid)"
    and "bountyPoolWei s' = bountyPoolWei s
            + (stakeAmount (reports s rid) * falseReportSlashBps s) div BPS_DENOMINATOR"
    and "reputation (reporterProfiles s' (reporter (reports s rid)))
           = reputation (reporterProfiles s (reporter (reports s rid)))
             - (12 + int (severity (reports s rid)) * 6)"
  using assms
  by (auto simp: resolveRejected_def Let_def setHighRisk_frame
           split: if_splits sum.splits)

lemma resolveConfirmed_result:
  assumes "resolveConfirmed s rid = Inr (s', payoutWei)"
  shows "payoutWei = stakeAmount (reports s rid)
            + min (baseRewardWei s * severity (reports s rid)) (bountyPoolWei s)"
    and "bountyPoolWei s' = bountyPoolWei s
            - min (baseRewardWei s * severity (reports s rid)) (bountyPoolWei s)"
    and "reputation (reporterProfiles s' (reporter (reports s rid)))
           = reputation (reporterProfiles s (reporter (reports s rid)))
             + (10 + int (severity (reports s rid)) * 4)"
  using assms
    apply (simp_all only: resolveConfirmed_def Let_def if_gt_min if_pos_sub if_pos_add)
    apply (simp_all split: if_splits sum.splits)
   apply (auto simp: setHighRisk_frame)
  done

text \<open>
  The payee's calls come last: a transfer function returns the storage that the same call
  without them returns, followed by the payee's calls.
\<close>

lemma resolveReport_callback:
  "resolveReport s a now sent cb rid cf =
     (case resolveReport s a now sent [] rid cf of
        Inl e \<Rightarrow> Inl e
      | Inr (s1, p) \<Rightarrow> Inr (if p > 0 then runNested s1 cb else s1, p))"
  by (simp add: resolveReport_def split: sum.splits prod.splits)

lemma resolveReport_payee:
  assumes "resolveReport s a now sent cb rid cf = Inr (s', p)"
  shows "\<exists>s1. resolveReport s a now sent [] rid cf = Inr (s1, p)
            \<and> s' = (if p > 0 then runNested s1 cb else s1)"
  using assms
  by (subst (asm) resolveReport_callback) (auto split: sum.splits prod.splits)

lemma withdrawBountyPool_callback:
  "withdrawBountyPool s a sent cb amount to =
     map_sum id (\<lambda>s1. runNested s1 cb) (withdrawBountyPool s a sent [] amount to)"
  by (simp add: withdrawBountyPool_def)

lemma withdrawBountyPool_payee:
  assumes "withdrawBountyPool s a sent cb amount to = Inr s'"
  shows "\<exists>s1. withdrawBountyPool s a sent [] amount to = Inr s1 \<and> s' = runNested s1 cb"
  using assms
  by (subst (asm) withdrawBountyPool_callback)
     (cases "withdrawBountyPool s a sent [] amount to"; auto)

lemma resolveReport_branch:
  assumes "resolveReport s a now sent [] rid cf = Inr (s', p)"
  shows "(if cf then resolveConfirmed (resolveShared s a now rid) rid
          else resolveRejected (resolveShared s a now rid) rid) = Inr (s', p)"
  using assms
  by (auto simp: resolveReport_def split: if_splits sum.splits prod.splits)

lemma resolveReport_requires:
  assumes "resolveReport s a now sent cb rid cf = Inr (s', p)"
  shows "\<not> paused s" "roles s REGULATOR_ROLE a"
    "reporter (reports s rid) \<noteq> 0" "status (reports s rid) = Pending"
  using assms by (auto simp: resolveReport_def split: if_splits)

lemma setHighRisk_batches:
  assumes "setHighRisk s t b = Inr s'"
  shows "batches s' = (batches s)(t := (batches s t)\<lparr>flaggedHighRisk := b\<rparr>)"
  using assms by (auto simp: setHighRisk_def Let_def fun_eq_iff split: if_splits)

lemma map_sum_fst_Inr:
  "map_sum id fst x = Inr s' \<longleftrightarrow> (\<exists>p. x = Inr (s', p))"
  by (cases x) auto

section \<open>The swap-remove index\<close>

lemma swap_remove_nth:
  assumes "k < length xs" "i < length xs - 1"
  shows "butlast (xs[k := v]) ! i = (if i = k then v else xs ! i)"
  using assms by (simp add: nth_butlast nth_list_update)

lemma swap_remove_distinct:
  assumes "distinct xs" "k < length xs"
  shows "distinct (butlast (xs[k := last xs]))"
proof -
  have ne: "xs \<noteq> []" using assms by auto
  have l: "last xs = xs ! (length xs - 1)" using ne by (simp add: last_conv_nth)
  show ?thesis
    unfolding distinct_conv_nth
  proof (intro allI impI)
    fix i j
    assume i: "i < length (butlast (xs[k := last xs]))"
       and j: "j < length (butlast (xs[k := last xs]))" and ij: "i \<noteq> j"
    then have i': "i < length xs - 1" and j': "j < length xs - 1" by simp_all
    show "butlast (xs[k := last xs]) ! i \<noteq> butlast (xs[k := last xs]) ! j"
      using assms i' j' ij l
      by (auto simp: swap_remove_nth nth_eq_iff_index_eq)
  qed
qed

lemma swap_remove_set:
  assumes "distinct xs" "k < length xs"
  shows "set (butlast (xs[k := last xs])) = set xs - {xs ! k}"
proof -
  have ne: "xs \<noteq> []" using assms by auto
  have l: "last xs = xs ! (length xs - 1)" using ne by (simp add: last_conv_nth)
  show ?thesis
  proof (intro set_eqI iffI)
    fix x assume "x \<in> set (butlast (xs[k := last xs]))"
    then obtain i where i: "i < length xs - 1" and x: "x = butlast (xs[k := last xs]) ! i"
      by (auto simp: in_set_conv_nth)
    show "x \<in> set xs - {xs ! k}"
      using assms i x l by (auto simp: swap_remove_nth nth_eq_iff_index_eq)
  next
    fix x assume "x \<in> set xs - {xs ! k}"
    then obtain i where i: "i < length xs" and x: "x = xs ! i" and nk: "xs ! i \<noteq> xs ! k"
      by (auto simp: in_set_conv_nth)
    show "x \<in> set (butlast (xs[k := last xs]))"
    proof (cases "i = length xs - 1")
      case True
      then have "k < length xs - 1" using nk assms(2) by (cases "k = length xs - 1") auto
      then have "butlast (xs[k := last xs]) ! k = x"
        using assms x True l by (simp add: swap_remove_nth)
      moreover have "k < length (butlast (xs[k := last xs]))" using \<open>k < length xs - 1\<close> by simp
      ultimately show ?thesis by (metis nth_mem)
    next
      case False
      then have i': "i < length xs - 1" using i by simp
      have "i \<noteq> k" using nk by auto
      then have "butlast (xs[k := last xs]) ! i = x"
        using assms x i' by (simp add: swap_remove_nth)
      moreover have "i < length (butlast (xs[k := last xs]))" using i' by simp
      ultimately show ?thesis by (metis nth_mem)
    qed
  qed
qed

lemma position_of_member:
  assumes "\<forall>i. i < length xs \<longrightarrow> pos (xs ! i) = i + 1" "t \<in> set xs"
  shows "pos t - 1 < length xs \<and> xs ! (pos t - 1) = t"
proof -
  from assms(2) obtain i where "i < length xs" "xs ! i = t"
    by (auto simp: in_set_conv_nth)
  with assms(1) show ?thesis by auto
qed

lemma coherent_remove:
  assumes d: "distinct xs"
    and m: "\<forall>u. (pos u \<noteq> 0) = (u \<in> set xs)"
    and p: "\<forall>i. i < length xs \<longrightarrow> pos (xs ! i) = i + 1"
    and t: "t \<in> set xs"
  defines "k \<equiv> pos t - 1"
  defines "ys \<equiv> butlast (xs[k := last xs])"
  defines "pos' \<equiv> (pos(last xs := k + 1))(t := (0::nat))"
  shows "distinct ys"
    and "set ys = set xs - {t}"
    and "\<forall>u. (pos' u \<noteq> 0) = (u \<in> set ys)"
    and "\<forall>i. i < length ys \<longrightarrow> pos' (ys ! i) = i + 1"
proof -
  have k: "k < length xs" and xk: "xs ! k = t"
    using position_of_member[OF p t] by (simp_all add: k_def)
  have ne: "xs \<noteq> []" using t by auto
  have l: "last xs = xs ! (length xs - 1)" using ne by (simp add: last_conv_nth)
  show dy: "distinct ys" unfolding ys_def by (rule swap_remove_distinct[OF d k])
  show sy: "set ys = set xs - {t}"
    unfolding ys_def using swap_remove_set[OF d k] xk by simp
  have lastin: "last xs \<in> set xs" using ne by simp
  show "\<forall>u. (pos' u \<noteq> 0) = (u \<in> set ys)"
    using m lastin by (auto simp: pos'_def sy)
  show "\<forall>i. i < length ys \<longrightarrow> pos' (ys ! i) = i + 1"
  proof (intro allI impI)
    fix i assume "i < length ys"
    then have i: "i < length xs - 1" by (simp add: ys_def)
    have yi: "ys ! i = (if i = k then last xs else xs ! i)"
      unfolding ys_def by (rule swap_remove_nth[OF k i])
    have "ys ! i \<in> set ys" using \<open>i < length ys\<close> by simp
    then have nt: "ys ! i \<noteq> t" using sy by auto
    show "pos' (ys ! i) = i + 1"
    proof (cases "i = k")
      case True
      then show ?thesis using yi nt by (simp add: pos'_def)
    next
      case False
      have "xs ! i \<noteq> last xs"
        using d i l by (simp add: nth_eq_iff_index_eq)
      then show ?thesis using False yi nt p i by (simp add: pos'_def)
    qed
  qed
qed

lemma coherent_add:
  assumes d: "distinct xs"
    and m: "\<forall>u. (pos u \<noteq> 0) = (u \<in> set xs)"
    and p: "\<forall>i. i < length xs \<longrightarrow> pos (xs ! i) = i + 1"
    and t: "t \<notin> set xs"
  shows "distinct (xs @ [t])"
    and "\<forall>u. ((pos(t := length xs + 1)) u \<noteq> (0::nat)) = (u \<in> set (xs @ [t]))"
    and "\<forall>i. i < length (xs @ [t]) \<longrightarrow> (pos(t := length xs + 1)) ((xs @ [t]) ! i) = i + 1"
proof -
  show "distinct (xs @ [t])" using d t by simp
  show "\<forall>u. ((pos(t := length xs + 1)) u \<noteq> (0::nat)) = (u \<in> set (xs @ [t]))"
    using m by auto
  show "\<forall>i. i < length (xs @ [t]) \<longrightarrow> (pos(t := length xs + 1)) ((xs @ [t]) ! i) = i + 1"
  proof (intro allI impI)
    fix i assume "i < length (xs @ [t])"
    then consider "i < length xs" | "i = length xs" by fastforce
    then show "(pos(t := length xs + 1)) ((xs @ [t]) ! i) = i + 1"
    proof cases
      case 1
      then have "xs ! i \<in> set xs" by simp
      then have "xs ! i \<noteq> t" using t by auto
      then show ?thesis using 1 p by (simp add: nth_append)
    next
      case 2
      then show ?thesis by simp
    qed
  qed
qed

lemma setHighRisk_total:
  assumes "indexCoherent s"
  shows "\<exists>s'. setHighRisk s t b = Inr s'"
proof (cases "flaggedHighRisk (batches s t) = b")
  case True
  then show ?thesis by (simp add: setHighRisk_def)
next
  case False
  show ?thesis
  proof (cases b)
    case True
    then show ?thesis using False by (simp add: setHighRisk_def Let_def)
  next
    case b: False
    then have t: "t \<in> set (highRiskBatchIds s)"
      using False assms by (simp add: indexCoherent_def)
    have p: "\<forall>i. i < length (highRiskBatchIds s) \<longrightarrow>
               highRiskIndexPlusOne s (highRiskBatchIds s ! i) = i + 1"
      using assms by (simp add: indexCoherent_def)
    from position_of_member[OF p t]
    have "highRiskIndexPlusOne s t - 1 < length (highRiskBatchIds s)" by simp
    moreover have "highRiskBatchIds s \<noteq> []" using t by auto
    ultimately show ?thesis using b False by (simp add: setHighRisk_def Let_def)
  qed
qed

lemma setHighRisk_coherent:
  assumes c: "indexCoherent s" and r: "setHighRisk s t b = Inr s'"
  shows "indexCoherent s'"
proof (cases "flaggedHighRisk (batches s t) = b")
  case True
  then show ?thesis using c r by (simp add: setHighRisk_def)
next
  case False
  show ?thesis
  proof (cases b)
    case True
    then have nt: "t \<notin> set (highRiskBatchIds s)"
      using False c by (simp add: indexCoherent_def)
    have d: "distinct (highRiskBatchIds s)"
      and m: "\<forall>u. (highRiskIndexPlusOne s u \<noteq> 0) = (u \<in> set (highRiskBatchIds s))"
      and p: "\<forall>i. i < length (highRiskBatchIds s) \<longrightarrow>
                highRiskIndexPlusOne s (highRiskBatchIds s ! i) = i + 1"
      and f: "\<forall>u. flaggedHighRisk (batches s u) = (u \<in> set (highRiskBatchIds s))"
      using c by (simp_all add: indexCoherent_def)
    have shape: "highRiskBatchIds s' = highRiskBatchIds s @ [t]
        \<and> highRiskIndexPlusOne s'
            = (highRiskIndexPlusOne s)(t := length (highRiskBatchIds s) + 1)
        \<and> batches s' = (batches s)(t := (batches s t)\<lparr>flaggedHighRisk := True\<rparr>)"
      using r True False by (auto simp: setHighRisk_def Let_def)
    note ca = coherent_add[OF d m p nt]
    show ?thesis
      unfolding indexCoherent_def
      using shape ca f by auto
  next
    case b: False
    let ?xs = "highRiskBatchIds s" and ?pos = "highRiskIndexPlusOne s"
    have t: "t \<in> set ?xs" using False c b by (simp add: indexCoherent_def)
    have d: "distinct ?xs" and m: "\<forall>u. (?pos u \<noteq> 0) = (u \<in> set ?xs)"
      and p: "\<forall>i. i < length ?xs \<longrightarrow> ?pos (?xs ! i) = i + 1"
      and f: "\<forall>u. flaggedHighRisk (batches s u) = (u \<in> set ?xs)"
      using c by (simp_all add: indexCoherent_def)
    have k: "?pos t - 1 < length ?xs" and xk: "?xs ! (?pos t - 1) = t"
      using position_of_member[OF p t] by simp_all
    have ne: "?xs \<noteq> []" using t by auto
    have pt: "?pos t > 0" using m t by auto
    have l: "last ?xs = ?xs ! (length ?xs - 1)" using ne by (simp add: last_conv_nth)
    have shape: "highRiskBatchIds s' = butlast (?xs[?pos t - 1 := last ?xs])
        \<and> highRiskIndexPlusOne s' = (?pos(last ?xs := ?pos t - 1 + 1))(t := 0)
        \<and> batches s' = (batches s)(t := (batches s t)\<lparr>flaggedHighRisk := False\<rparr>)"
    proof (cases "?pos t - 1 = length ?xs - 1")
      case True
      then have lt: "last ?xs = t" using xk l by simp
      have upd: "?xs[length ?xs - 1 := last ?xs] = ?xs" by (simp add: l)
      have "highRiskBatchIds s' = butlast ?xs
        \<and> highRiskIndexPlusOne s' = (?pos)(t := 0)
        \<and> batches s' = (batches s)(t := (batches s t)\<lparr>flaggedHighRisk := False\<rparr>)"
        using r b False True pt ne
        by (auto simp: setHighRisk_def Let_def)
      then show ?thesis using True upd lt by simp
    next
      case False
      then show ?thesis
        using r b \<open>flaggedHighRisk (batches s t) \<noteq> b\<close> pt ne k l
        by (auto simp: setHighRisk_def Let_def)
    qed
    note cr = coherent_remove[OF d m p t]
    show ?thesis
      unfolding indexCoherent_def
      using shape cr f by auto
  qed
qed

lemma inIndexBySpec_Cons:
  "inIndexBySpec (f # fs) t \<longleftrightarrow>
     inIndexBySpec fs t \<or> (f = (t, True) \<and> (t, False) \<notin> set fs)"
proof
  assume "inIndexBySpec (f # fs) t"
  then obtain i where i: "i < length (f # fs)" "(f # fs) ! i = (t, True)"
    and later: "\<forall>j. i < j \<and> j < length (f # fs) \<longrightarrow> (f # fs) ! j \<noteq> (t, False)"
    unfolding inIndexBySpec_def by blast
  show "inIndexBySpec fs t \<or> (f = (t, True) \<and> (t, False) \<notin> set fs)"
  proof (cases i)
    case 0
    then have "f = (t, True)" using i by simp
    moreover have "(t, False) \<notin> set fs"
    proof
      assume "(t, False) \<in> set fs"
      then obtain j where "j < length fs" "fs ! j = (t, False)"
        by (auto simp: in_set_conv_nth)
      then show False using later 0 by (auto dest: spec[where x = "Suc j"])
    qed
    ultimately show ?thesis by simp
  next
    case (Suc i')
    have "i' < length fs" "fs ! i' = (t, True)" using i Suc by simp_all
    moreover have "\<forall>j. i' < j \<and> j < length fs \<longrightarrow> fs ! j \<noteq> (t, False)"
    proof (intro allI impI)
      fix j assume "i' < j \<and> j < length fs"
      then show "fs ! j \<noteq> (t, False)" using later Suc by (auto dest: spec[where x = "Suc j"])
    qed
    ultimately show ?thesis unfolding inIndexBySpec_def by blast
  qed
next
  assume "inIndexBySpec fs t \<or> (f = (t, True) \<and> (t, False) \<notin> set fs)"
  then show "inIndexBySpec (f # fs) t"
  proof
    assume "inIndexBySpec fs t"
    then obtain i where i: "i < length fs" "fs ! i = (t, True)"
      and later: "\<forall>j. i < j \<and> j < length fs \<longrightarrow> fs ! j \<noteq> (t, False)"
      unfolding inIndexBySpec_def by blast
    have "\<forall>j. Suc i < j \<and> j < length (f # fs) \<longrightarrow> (f # fs) ! j \<noteq> (t, False)"
    proof (intro allI impI)
      fix j assume j: "Suc i < j \<and> j < length (f # fs)"
      then obtain j' where "j = Suc j'" by (cases j) auto
      then show "(f # fs) ! j \<noteq> (t, False)" using later j by auto
    qed
    moreover have "Suc i < length (f # fs)" "(f # fs) ! Suc i = (t, True)" using i by simp_all
    ultimately show ?thesis unfolding inIndexBySpec_def by blast
  next
    assume a: "f = (t, True) \<and> (t, False) \<notin> set fs"
    have "\<forall>j. 0 < j \<and> j < length (f # fs) \<longrightarrow> (f # fs) ! j \<noteq> (t, False)"
    proof (intro allI impI)
      fix j assume j: "0 < j \<and> j < length (f # fs)"
      then obtain j' where j': "j = Suc j'" by (cases j) auto
      then have "fs ! j' \<in> set fs" using j by simp
      then show "(f # fs) ! j \<noteq> (t, False)" using a j' by auto
    qed
    moreover have "0 < length (f # fs)" "(f # fs) ! 0 = (t, True)" using a by simp_all
    ultimately show ?thesis unfolding inIndexBySpec_def by blast
  qed
qed

lemma inIndexBySpec_Nil: "\<not> inIndexBySpec [] t"
  by (simp add: inIndexBySpec_def)

lemma setFlags_spec:
  assumes "indexCoherent s"
  shows "\<exists>s'. setFlags s fs = Inr s' \<and> indexCoherent s'
           \<and> (\<forall>t. flaggedHighRisk (batches s' t)
                  = (inIndexBySpec fs t
                     \<or> (flaggedHighRisk (batches s t) \<and> (t, False) \<notin> set fs)))"
  using assms
proof (induction fs arbitrary: s)
  case Nil
  then show ?case by (simp add: inIndexBySpec_Nil)
next
  case (Cons f fs)
  obtain s1 where s1: "setHighRisk s (fst f) (snd f) = Inr s1"
    using setHighRisk_total[OF Cons.prems] by blast
  have c1: "indexCoherent s1" by (rule setHighRisk_coherent[OF Cons.prems s1])
  have b1: "\<forall>t. flaggedHighRisk (batches s1 t)
              = (if t = fst f then snd f else flaggedHighRisk (batches s t))"
    using setHighRisk_batches[OF s1] by simp
  from Cons.IH[OF c1] obtain s' where
    r: "setFlags s1 fs = Inr s'" and c': "indexCoherent s'"
    and fl: "\<forall>t. flaggedHighRisk (batches s' t)
                = (inIndexBySpec fs t \<or> (flaggedHighRisk (batches s1 t) \<and> (t, False) \<notin> set fs))"
    by blast
  have "setFlags s (f # fs) = Inr s'" using s1 r by simp
  moreover have "\<forall>t. flaggedHighRisk (batches s' t)
      = (inIndexBySpec (f # fs) t
         \<or> (flaggedHighRisk (batches s t) \<and> (t, False) \<notin> set (f # fs)))"
  proof
    fix t
    show "flaggedHighRisk (batches s' t)
      = (inIndexBySpec (f # fs) t
         \<or> (flaggedHighRisk (batches s t) \<and> (t, False) \<notin> set (f # fs)))"
      using fl b1 by (cases f) (auto simp: inIndexBySpec_Cons)
  qed
  ultimately show ?case using c' by blast
qed

section \<open>The ledger invariant is kept by every transaction\<close>

lemma ledgerInv_cong:
  assumes "reportIdCounter s' = reportIdCounter s" "reports s' = reports s"
    "owners s' = owners s" "batches s' = batches s"
    "highRiskBatchIds s' = highRiskBatchIds s"
    "highRiskIndexPlusOne s' = highRiskIndexPlusOne s"
  shows "ledgerInv s' = ledgerInv s"
  using assms by (simp add: ledgerInv_def indexCoherent_def pendingSevere_def)

lemma ledgerInv_constructor: "ledgerInv (constructor d)"
  by (simp add: ledgerInv_def indexCoherent_def pendingSevere_def constructor_def
        zeroBatch_def zeroFakeReport_def)

lemma ledgerInv_receive:
  "ledgerInv s \<Longrightarrow> receive s a v = Inr s' \<Longrightarrow> ledgerInv s'"
  using ledgerInv_cong[of s' s] by (auto simp: receive_def split: if_splits)

lemma ledgerInv_registerManufacturer:
  "ledgerInv s \<Longrightarrow> registerManufacturer s a m l n b = Inr s' \<Longrightarrow> ledgerInv s'"
  using ledgerInv_cong[of s' s] by (auto simp: registerManufacturer_def split: if_splits)

lemma ledgerInv_registerLab:
  "ledgerInv s \<Longrightarrow> registerLab s a l i b = Inr s' \<Longrightarrow> ledgerInv s'"
  using ledgerInv_cong[of s' s] by (auto simp: registerLab_def split: if_splits)

lemma ledgerInv_setInspector:
  "ledgerInv s \<Longrightarrow> setInspector s a i b = Inr s' \<Longrightarrow> ledgerInv s'"
  using ledgerInv_cong[of s' s] by (auto simp: setInspector_def split: if_splits)

lemma ledgerInv_setReporterBlocked:
  "ledgerInv s \<Longrightarrow> setReporterBlocked s a w b = Inr s' \<Longrightarrow> ledgerInv s'"
  using ledgerInv_cong[of s' s] by (auto simp: setReporterBlocked_def split: if_splits)

lemma ledgerInv_setPolicyParameters:
  "ledgerInv s \<Longrightarrow> setPolicyParameters s a p1 p2 p3 p4 p5 p6 p7 p8 = Inr s' \<Longrightarrow> ledgerInv s'"
  using ledgerInv_cong[of s' s] by (auto simp: setPolicyParameters_def split: if_splits)

lemma ledgerInv_fundBountyPool:
  "ledgerInv s \<Longrightarrow> fundBountyPool s a v = Inr s' \<Longrightarrow> ledgerInv s'"
  using ledgerInv_cong[of s' s] by (auto simp: fundBountyPool_def split: if_splits)

lemma ledgerInv_withdrawBountyPool_core:
  "ledgerInv s \<Longrightarrow> withdrawBountyPool s a sent [] amount to = Inr s' \<Longrightarrow> ledgerInv s'"
  using ledgerInv_cong[of s' s] by (auto simp: withdrawBountyPool_def split: if_splits)

lemma ledgerInv_recordCustodyCheckpoint:
  "ledgerInv s \<Longrightarrow> recordCustodyCheckpoint s a t l ty = Inr s' \<Longrightarrow> ledgerInv s'"
  by (auto simp: recordCustodyCheckpoint_def split: if_splits)

lemma ledgerInv_pause:
  "ledgerInv s \<Longrightarrow> pause s a = Inr s' \<Longrightarrow> ledgerInv s'"
  using ledgerInv_cong[of s' s] by (auto simp: pause_def split: if_splits)

lemma ledgerInv_unpause:
  "ledgerInv s \<Longrightarrow> unpause s a = Inr s' \<Longrightarrow> ledgerInv s'"
  using ledgerInv_cong[of s' s] by (auto simp: unpause_def split: if_splits)

lemma ledgerInv_grantRole:
  "ledgerInv s \<Longrightarrow> grantRole s a r x = Inr s' \<Longrightarrow> ledgerInv s'"
  using ledgerInv_cong[of s' s] by (auto simp: grantRole_def split: if_splits)

lemma ledgerInv_revokeRole:
  "ledgerInv s \<Longrightarrow> revokeRole s a r x = Inr s' \<Longrightarrow> ledgerInv s'"
  using ledgerInv_cong[of s' s] by (auto simp: revokeRole_def split: if_splits)

lemma ledgerInv_renounceRole:
  "ledgerInv s \<Longrightarrow> renounceRole s a r x = Inr s' \<Longrightarrow> ledgerInv s'"
  using ledgerInv_cong[of s' s] by (auto simp: renounceRole_def split: if_splits)

lemma ledgerInv_transferFrom:
  "ledgerInv s \<Longrightarrow> transferFrom s a ap f t i = Inr s' \<Longrightarrow> ledgerInv s'"
  by (auto simp: transferFrom_def ledgerInv_def indexCoherent_def pendingSevere_def
           split: if_splits)

lemma ledgerInv_transferToNextOwner:
  "ledgerInv s \<Longrightarrow> transferToNextOwner s a now t n ty = Inr s' \<Longrightarrow> ledgerInv s'"
  by (auto simp: transferToNextOwner_def ledgerInv_def indexCoherent_def pendingSevere_def
           split: if_splits)

lemma ledgerInv_updateFederatedModel:
  "ledgerInv s \<Longrightarrow> updateFederatedModel s a now t m = Inr s' \<Longrightarrow> ledgerInv s'"
  by (auto simp: updateFederatedModel_def ledgerInv_def indexCoherent_def pendingSevere_def
           split: if_splits)

lemma finite_pendingSevere: "finite (pendingSevere s t)"
  by (simp add: pendingSevere_def)

lemma setHighRisk_ids_frame:
  assumes "setHighRisk s t b = Inr s'"
  shows "reportIdCounter s' = reportIdCounter s" "reports s' = reports s"
    "owners s' = owners s" "pendingSevere s' u = pendingSevere s u"
  using assms by (auto simp: setHighRisk_def Let_def pendingSevere_def split: if_splits)

lemma setHighRisk_True_ledgerInv:
  assumes c: "indexCoherent s"
    and l: "\<forall>i. reporter (reports s i) \<noteq> 0 \<longrightarrow> i < reportIdCounter s"
    and k: "\<forall>i. i < reportIdCounter s \<longrightarrow> owners s (tokenId (reports s i)) \<noteq> 0"
    and m: "\<forall>u. flaggedHighRisk (batches s u) \<longrightarrow> owners s u \<noteq> 0"
    and q: "\<forall>u. u \<noteq> t \<longrightarrow> (quarantined (batches s u) \<or> pendingSevereReports (batches s u) > 0
                \<longrightarrow> flaggedHighRisk (batches s u))"
    and n: "\<forall>u. pendingSevereReports (batches s u) = card (pendingSevere s u)"
    and o: "owners s t \<noteq> 0"
    and r: "setHighRisk s t True = Inr s'"
  shows "ledgerInv s'"
proof -
  note f = setHighRisk_ids_frame[OF r]
  have b: "batches s' = (batches s)(t := (batches s t)\<lparr>flaggedHighRisk := True\<rparr>)"
    by (rule setHighRisk_batches[OF r])
  have "indexCoherent s'" by (rule setHighRisk_coherent[OF c r])
  then show ?thesis
    unfolding ledgerInv_def
    using l k m q n o by (simp add: f b)
qed

lemma setHighRisk_False_ledgerInv:
  assumes i: "ledgerInv s"
    and nq: "\<not> quarantined (batches s t)" and np: "pendingSevereReports (batches s t) = 0"
    and r: "setHighRisk s t False = Inr s'"
  shows "ledgerInv s'"
proof -
  note f = setHighRisk_ids_frame[OF r]
  have b: "batches s' = (batches s)(t := (batches s t)\<lparr>flaggedHighRisk := False\<rparr>)"
    by (rule setHighRisk_batches[OF r])
  have "indexCoherent s'" using i setHighRisk_coherent[OF _ r] by (simp add: ledgerInv_def)
  then show ?thesis
    using i nq np unfolding ledgerInv_def by (simp add: f b)
qed

lemma ledgerInv_mintBatchInternal:
  assumes i: "ledgerInv s"
    and r: "mintBatchInternal s a now rec to bn mn pn mf ex ah ph sg = Inr (s', tid)"
  shows "ledgerInv s'"
proof -
  have e: "owners s (tokenIdCounter s) = 0" "to \<noteq> 0"
    and s': "s' = s\<lparr>tokenIdCounter := tokenIdCounter s + 1,
                     owners := (owners s)(tokenIdCounter s := to),
                     batches := (batches s)(tokenIdCounter s :=
                       \<lparr>productName = pn, manufacturerName = mn,
                        manufacturerLicenseNo = licenseNo (manufacturers s a), batchNumber = bn,
                        mfgDate = mf, expiryTimestamp = ex, apiHash = ah,
                        packagingHash = ph, currentOwnerType = ''Manufacturer'',
                        currentCustodian = to, lastVerified = uint64 now,
                        modelHash = [], batchOpenReports = 0, pendingSevereReports = 0,
                        quarantined = False, flaggedHighRisk = False\<rparr>),
                     totalBatchesMinted := totalBatchesMinted s + 1\<rparr>"
    using r by (auto simp: mintBatchInternal_def Let_def split: if_splits option.splits)
  let ?t = "tokenIdCounter s"
  have nf: "\<not> flaggedHighRisk (batches s ?t)" using i e by (auto simp: ledgerInv_def)
  have emp: "pendingSevere s ?t = {}"
    using i e by (auto simp: ledgerInv_def pendingSevere_def)
  have ps: "\<And>u. pendingSevere s' u = pendingSevere s u"
    by (simp add: s' pendingSevere_def)
  have c: "indexCoherent s'"
    using i nf by (auto simp: ledgerInv_def indexCoherent_def s')
  show ?thesis
    unfolding ledgerInv_def
    using c i nf emp e by (auto simp: ps) (auto simp: s' ledgerInv_def)
qed

lemma ledgerInv_mintBatch:
  "ledgerInv s \<Longrightarrow> mintBatch s a now rec to bn mn ex ah uh sg = Inr (s', tid) \<Longrightarrow> ledgerInv s'"
  by (auto simp: mintBatch_def split: if_splits dest: ledgerInv_mintBatchInternal)

lemma ledgerInv_mintBatchWithCompliance:
  "ledgerInv s \<Longrightarrow> mintBatchWithCompliance s a now rec to bn mn pn mf ex ah ph sg = Inr (s', tid)
     \<Longrightarrow> ledgerInv s'"
  by (auto simp: mintBatchWithCompliance_def split: if_splits dest: ledgerInv_mintBatchInternal)

lemma ledgerInv_submitLabAttestation:
  assumes i: "ledgerInv s" and r: "submitLabAttestation s a now t h p c = Inr s'"
  shows "ledgerInv s'"
proof -
  let ?s1 = "s\<lparr>labAttestationsByBatch := (labAttestationsByBatch s)
                     (t := labAttestationsByBatch s t @
                        [\<lparr>lab = a, reportHash = h, passed = p,
                          confidenceBps = c, attestedAt = uint64 now\<rparr>]),
                   batches := (batches s)(t := (batches s t)
                     \<lparr>lastVerified := uint64 now\<rparr>)\<rparr>"
  have o: "owners s t \<noteq> 0" and res: "(if \<not> p then setHighRisk ?s1 t True else Inr ?s1) = Inr s'"
    using r by (auto simp: submitLabAttestation_def Let_def split: if_splits)
  have i1: "ledgerInv ?s1"
    using i by (auto simp: ledgerInv_def indexCoherent_def pendingSevere_def)
  show ?thesis
  proof (cases p)
    case True
    then show ?thesis using res i1 by simp
  next
    case False
    then have r1: "setHighRisk ?s1 t True = Inr s'" using res by simp
    show ?thesis
      by (rule setHighRisk_True_ledgerInv[OF _ _ _ _ _ _ _ r1])
         (use i o in \<open>auto simp: ledgerInv_def indexCoherent_def pendingSevere_def\<close>)
  qed
qed

lemma ledgerInv_setBatchQuarantine:
  assumes i: "ledgerInv s" and r: "setBatchQuarantine s a t q rc = Inr s'"
  shows "ledgerInv s'"
proof -
  let ?s1 = "s\<lparr>batches := (batches s)(t := (batches s t)\<lparr>quarantined := q\<rparr>)\<rparr>"
  have o: "owners s t \<noteq> 0"
    and res: "(if q then setHighRisk ?s1 t True
               else if pendingSevereReports (batches ?s1 t) = 0 then setHighRisk ?s1 t False
               else Inr ?s1) = Inr s'"
    using r by (auto simp: setBatchQuarantine_def Let_def split: if_splits)
  show ?thesis
  proof (cases q)
    case True
    then have r1: "setHighRisk ?s1 t True = Inr s'" using res by simp
    show ?thesis
      by (rule setHighRisk_True_ledgerInv[OF _ _ _ _ _ _ _ r1])
         (use i o in \<open>auto simp: ledgerInv_def indexCoherent_def pendingSevere_def\<close>)
  next
    case False
    have i1: "ledgerInv ?s1"
      using i False by (auto simp: ledgerInv_def indexCoherent_def pendingSevere_def)
    show ?thesis
    proof (cases "pendingSevereReports (batches ?s1 t) = 0")
      case True
      then have r1: "setHighRisk ?s1 t False = Inr s'" using res False by simp
      show ?thesis
        by (rule setHighRisk_False_ledgerInv[OF i1 _ _ r1]) (use False True in auto)
    next
      case False
      then show ?thesis using res i1 \<open>\<not> q\<close> by simp
    qed
  qed
qed

lemma ledgerInvI:
  assumes "indexCoherent s"
    and "\<And>i. reporter (reports s i) \<noteq> 0 \<Longrightarrow> i < reportIdCounter s"
    and "\<And>i. i < reportIdCounter s \<Longrightarrow> owners s (tokenId (reports s i)) \<noteq> 0"
    and "\<And>u. flaggedHighRisk (batches s u) \<Longrightarrow> owners s u \<noteq> 0"
    and "\<And>u. quarantined (batches s u) \<or> pendingSevereReports (batches s u) > 0
            \<Longrightarrow> flaggedHighRisk (batches s u)"
    and "\<And>u. pendingSevereReports (batches s u) = card (pendingSevere s u)"
  shows "ledgerInv s"
  using assms unfolding ledgerInv_def by blast

lemma ledgerInvD:
  assumes "ledgerInv s"
  shows "indexCoherent s"
    and "reporter (reports s i) \<noteq> 0 \<Longrightarrow> i < reportIdCounter s"
    and "i < reportIdCounter s \<Longrightarrow> owners s (tokenId (reports s i)) \<noteq> 0"
    and "flaggedHighRisk (batches s u) \<Longrightarrow> owners s u \<noteq> 0"
    and "quarantined (batches s u) \<Longrightarrow> flaggedHighRisk (batches s u)"
    and "pendingSevereReports (batches s u) > 0 \<Longrightarrow> flaggedHighRisk (batches s u)"
    and "pendingSevereReports (batches s u) = card (pendingSevere s u)"
  using assms unfolding ledgerInv_def by blast+

lemma indexCoherent_cong:
  assumes "\<And>u. flaggedHighRisk (batches s' u) = flaggedHighRisk (batches s u)"
    and "highRiskBatchIds s' = highRiskBatchIds s"
    and "highRiskIndexPlusOne s' = highRiskIndexPlusOne s"
  shows "indexCoherent s' = indexCoherent s"
  using assms by (simp add: indexCoherent_def)

text \<open>Filing a report: the storage just before the flag is set.\<close>

lemma submit_core:
  assumes i: "ledgerInv s"
    and o: "owners s t \<noteq> 0"
    and c: "reportIdCounter s1 = reportIdCounter s + 1"
    and ow: "owners s1 = owners s"
    and ids: "highRiskBatchIds s1 = highRiskBatchIds s"
    and pos: "highRiskIndexPlusOne s1 = highRiskIndexPlusOne s"
    and rp: "reports s1 = (reports s)(reportIdCounter s := R)"
    and rt: "tokenId R = t" and rs: "severity R = sev" and rst: "status R = Pending"
    and bt: "batches s1 = (batches s)(t := B)"
    and bf: "flaggedHighRisk B = flaggedHighRisk (batches s t)"
    and bq: "quarantined B = quarantined (batches s t)"
    and bp: "pendingSevereReports B =
               (if sev = 3 then pendingSevereReports (batches s t) + 1
                else pendingSevereReports (batches s t))"
  shows "indexCoherent s1"
    and "\<forall>i. reporter (reports s1 i) \<noteq> 0 \<longrightarrow> i < reportIdCounter s1"
    and "\<forall>i. i < reportIdCounter s1 \<longrightarrow> owners s1 (tokenId (reports s1 i)) \<noteq> 0"
    and "\<forall>u. flaggedHighRisk (batches s1 u) \<longrightarrow> owners s1 u \<noteq> 0"
    and "\<forall>u. u \<noteq> t \<longrightarrow> (quarantined (batches s1 u) \<or> pendingSevereReports (batches s1 u) > 0
                \<longrightarrow> flaggedHighRisk (batches s1 u))"
    and "\<forall>u. pendingSevereReports (batches s1 u) = card (pendingSevere s1 u)"
    and "sev \<noteq> 3 \<longrightarrow> (quarantined (batches s1 t) \<or> pendingSevereReports (batches s1 t) > 0
                \<longrightarrow> flaggedHighRisk (batches s1 t))"
proof -
  note d = ledgerInvD[OF i]
  have fl: "\<And>u. flaggedHighRisk (batches s1 u) = flaggedHighRisk (batches s u)"
    by (simp add: bt bf)
  show "indexCoherent s1"
    using d(1) indexCoherent_cong[of s1 s] fl ids pos by simp
  show "\<forall>i. reporter (reports s1 i) \<noteq> 0 \<longrightarrow> i < reportIdCounter s1"
    using d(2) by (auto simp: rp c less_Suc_eq)
  show "\<forall>i. i < reportIdCounter s1 \<longrightarrow> owners s1 (tokenId (reports s1 i)) \<noteq> 0"
    using d(3) o by (auto simp: rp c ow rt less_Suc_eq)
  show "\<forall>u. flaggedHighRisk (batches s1 u) \<longrightarrow> owners s1 u \<noteq> 0"
    using d(4) by (simp add: fl ow)
  show "\<forall>u. u \<noteq> t \<longrightarrow> (quarantined (batches s1 u) \<or> pendingSevereReports (batches s1 u) > 0
                \<longrightarrow> flaggedHighRisk (batches s1 u))"
    using d(5) d(6) by (auto simp: bt)
  show "sev \<noteq> 3 \<longrightarrow> (quarantined (batches s1 t) \<or> pendingSevereReports (batches s1 t) > 0
                \<longrightarrow> flaggedHighRisk (batches s1 t))"
    using d(5)[of t] d(6)[of t] by (auto simp: bt bf bq bp)
  have fresh: "\<And>u. reportIdCounter s \<notin> pendingSevere s u"
    by (simp add: pendingSevere_def)
  have ps: "\<And>u. pendingSevere s1 u =
               (if u = t \<and> sev = 3 then insert (reportIdCounter s) (pendingSevere s u)
                else pendingSevere s u)"
    by (auto simp: pendingSevere_def c rp rt rs rst less_Suc_eq)
  show "\<forall>u. pendingSevereReports (batches s1 u) = card (pendingSevere s1 u)"
  proof
    fix u
    show "pendingSevereReports (batches s1 u) = card (pendingSevere s1 u)"
      using d(7)[of u] fresh[of u] finite_pendingSevere[of s u]
      by (auto simp: ps bt bp)
  qed
qed

lemma ledgerInv_reportSuspiciousBatch:
  assumes i: "ledgerInv s"
    and r: "reportSuspiciousBatch s a v now t n e w sev = Inr (s', rid)"
  shows "ledgerInv s'"
proof -
  define R where "R = \<lparr>reportId = reportIdCounter s, tokenId = t, reporter = a,
             identityNullifier = n, evidenceURI = e, reason = w,
             severity = sev, stakeAmount = v,
             createdAt = uint64 now, resolvedAt = 0,
             status = Pending, resolver = 0\<rparr>"
  define B where "B = (batches s t)
             \<lparr>batchOpenReports := batchOpenReports (batches s t) + 1,
              pendingSevereReports :=
                (if sev = 3 then pendingSevereReports (batches s t) + 1
                 else pendingSevereReports (batches s t))\<rparr>"
  define s1 where "s1 = s\<lparr>reportIdCounter := reportIdCounter s + 1,
               reports := (reports s)(reportIdCounter s := R),
               identityNullifierUsed := (identityNullifierUsed s)(n := True),
               reportsByBatch := (reportsByBatch s)(t := reportsByBatch s t @ [reportIdCounter s]),
               hasOpenReportForBatch := (hasOpenReportForBatch s)
                 (a := (hasOpenReportForBatch s a)(t := True)),
               reporterProfiles := (reporterProfiles s)(a := (reporterProfiles s a)
                 \<lparr>reportsSubmitted := reportsSubmitted (reporterProfiles s a) + 1,
                  openReports := openReports (reporterProfiles s a) + 1,
                  lastReportAt := uint64 now\<rparr>),
               batches := (batches s)(t := B),
               totalReportsFiled := totalReportsFiled s + 1,
               totalOpenReports := totalOpenReports s + 1\<rparr>"
  have o: "owners s t \<noteq> 0"
    and res: "if sev = 3 then setHighRisk s1 t True = Inr s' else s' = s1"
    using r unfolding s1_def R_def B_def
    by (simp_all only: reportSuspiciousBatch_def Let_def)
       (auto split: if_splits sum.splits)
  have core: "indexCoherent s1"
    "\<forall>i. reporter (reports s1 i) \<noteq> 0 \<longrightarrow> i < reportIdCounter s1"
    "\<forall>i. i < reportIdCounter s1 \<longrightarrow> owners s1 (tokenId (reports s1 i)) \<noteq> 0"
    "\<forall>u. flaggedHighRisk (batches s1 u) \<longrightarrow> owners s1 u \<noteq> 0"
    "\<forall>u. u \<noteq> t \<longrightarrow> (quarantined (batches s1 u) \<or> pendingSevereReports (batches s1 u) > 0
                \<longrightarrow> flaggedHighRisk (batches s1 u))"
    "\<forall>u. pendingSevereReports (batches s1 u) = card (pendingSevere s1 u)"
    "sev \<noteq> 3 \<longrightarrow> (quarantined (batches s1 t) \<or> pendingSevereReports (batches s1 t) > 0
                \<longrightarrow> flaggedHighRisk (batches s1 t))"
    by (rule submit_core[OF i o, of s1 R sev B]; simp add: s1_def R_def B_def)+
  have o1: "owners s1 t \<noteq> 0" using o by (simp add: s1_def)
  show ?thesis
  proof (cases "sev = 3")
    case True
    then have r1: "setHighRisk s1 t True = Inr s'" using res by simp
    show ?thesis
      by (rule setHighRisk_True_ledgerInv[OF core(1) core(2) core(3) core(4) core(5) core(6) o1 r1])
  next
    case False
    then have e: "s' = s1" using res by simp
    have "ledgerInv s1"
    proof -
      have "\<forall>u. quarantined (batches s1 u) \<or> pendingSevereReports (batches s1 u) > 0
                \<longrightarrow> flaggedHighRisk (batches s1 u)"
        using core(5) core(7) False by (metis (full_types))
      then show ?thesis
        unfolding ledgerInv_def using core(1) core(2) core(3) core(4) core(6) by simp
    qed
    then show ?thesis using e by simp
  qed
qed

lemma resolveShared_shape:
  "reportIdCounter (resolveShared s a now rid) = reportIdCounter s"
  "owners (resolveShared s a now rid) = owners s"
  "highRiskBatchIds (resolveShared s a now rid) = highRiskBatchIds s"
  "highRiskIndexPlusOne (resolveShared s a now rid) = highRiskIndexPlusOne s"
  "reports (resolveShared s a now rid) =
     (reports s)(rid := (reports s rid)\<lparr>resolver := a, resolvedAt := uint64 now\<rparr>)"
  "batches (resolveShared s a now rid) =
     (batches s)(tokenId (reports s rid) := (batches s (tokenId (reports s rid)))
        \<lparr>batchOpenReports := decFloor (batchOpenReports (batches s (tokenId (reports s rid)))),
         pendingSevereReports :=
           (if severity (reports s rid) = 3
               \<and> pendingSevereReports (batches s (tokenId (reports s rid))) > 0
            then pendingSevereReports (batches s (tokenId (reports s rid))) - 1
            else pendingSevereReports (batches s (tokenId (reports s rid))))\<rparr>)"
  by (simp_all add: resolveShared_def Let_def)

lemma resolveConfirmed_shape:
  assumes "resolveConfirmed s0 rid = Inr (s', p)"
  shows "\<exists>s1. setHighRisk s1 (tokenId (reports s0 rid)) True = Inr s'
     \<and> reportIdCounter s1 = reportIdCounter s0
     \<and> owners s1 = owners s0
     \<and> highRiskBatchIds s1 = highRiskBatchIds s0
     \<and> highRiskIndexPlusOne s1 = highRiskIndexPlusOne s0
     \<and> reports s1 = (reports s0)(rid := (reports s0 rid)\<lparr>status := ConfirmedFake\<rparr>)
     \<and> batches s1 = (batches s0)(tokenId (reports s0 rid) :=
          (batches s0 (tokenId (reports s0 rid)))\<lparr>quarantined := True\<rparr>)"
  using assms
  apply (simp only: resolveConfirmed_def Let_def if_gt_min if_pos_sub if_pos_add)
  apply (simp split: if_splits sum.splits)
  apply (rule exI, rule conjI, assumption, simp)
  done

lemma resolveRejected_shape:
  assumes "resolveRejected s0 rid = Inr (s', p)"
  defines "newRep \<equiv> reputation (reporterProfiles s0 (reporter (reports s0 rid)))
                      - int (12 + severity (reports s0 rid) * 6)"
  defines "s1 \<equiv> s0\<lparr>reports := (reports s0)(rid := (reports s0 rid)\<lparr>status := RejectedFalse\<rparr>),
                     reporterProfiles := (reporterProfiles s0)(reporter (reports s0 rid) :=
                       (reporterProfiles s0 (reporter (reports s0 rid)))
                       \<lparr>reportsRejected :=
                          reportsRejected (reporterProfiles s0 (reporter (reports s0 rid))) + 1,
                        reputation := newRep,
                        blocked := (if newRep \<le> - 100 then True
                                    else blocked (reporterProfiles s0 (reporter (reports s0 rid))))\<rparr>),
                     bountyPoolWei := bountyPoolWei s0
                       + (stakeAmount (reports s0 rid) * falseReportSlashBps s0) div BPS_DENOMINATOR\<rparr>"
  shows "s' = s1 \<or> (\<not> quarantined (batches s0 (tokenId (reports s0 rid)))
                   \<and> pendingSevereReports (batches s0 (tokenId (reports s0 rid))) = 0
                   \<and> setHighRisk s1 (tokenId (reports s0 rid)) False = Inr s')"
  using assms(1) unfolding s1_def newRep_def
  by (simp only: resolveRejected_def Let_def) (auto split: if_splits sum.splits)

text \<open>Resolving a report: the storage just before the flag is touched.\<close>

lemma resolve_core:
  assumes i: "ledgerInv s"
    and kn: "reporter (reports s rid) \<noteq> 0"
    and st: "status (reports s rid) = Pending"
    and t: "t = tokenId (reports s rid)"
    and c: "reportIdCounter s1 = reportIdCounter s"
    and ow: "owners s1 = owners s"
    and ids: "highRiskBatchIds s1 = highRiskBatchIds s"
    and pos: "highRiskIndexPlusOne s1 = highRiskIndexPlusOne s"
    and rp: "reports s1 = (reports s)(rid := R)"
    and rt: "tokenId R = tokenId (reports s rid)"
    and rs: "severity R = severity (reports s rid)"
    and rst: "status R \<noteq> Pending"
    and bt: "batches s1 = (batches s)(t := B)"
    and bf: "flaggedHighRisk B = flaggedHighRisk (batches s t)"
    and bp: "pendingSevereReports B =
               (if severity (reports s rid) = 3 \<and> pendingSevereReports (batches s t) > 0
                then pendingSevereReports (batches s t) - 1
                else pendingSevereReports (batches s t))"
  shows "indexCoherent s1"
    and "\<forall>i. reporter (reports s1 i) \<noteq> 0 \<longrightarrow> i < reportIdCounter s1"
    and "\<forall>i. i < reportIdCounter s1 \<longrightarrow> owners s1 (tokenId (reports s1 i)) \<noteq> 0"
    and "\<forall>u. flaggedHighRisk (batches s1 u) \<longrightarrow> owners s1 u \<noteq> 0"
    and "\<forall>u. u \<noteq> t \<longrightarrow> (quarantined (batches s1 u) \<or> pendingSevereReports (batches s1 u) > 0
                \<longrightarrow> flaggedHighRisk (batches s1 u))"
    and "\<forall>u. pendingSevereReports (batches s1 u) = card (pendingSevere s1 u)"
    and "quarantined B = quarantined (batches s t) \<longrightarrow>
           (quarantined (batches s1 t) \<or> pendingSevereReports (batches s1 t) > 0
                \<longrightarrow> flaggedHighRisk (batches s1 t))"
    and "owners s1 t \<noteq> 0"
proof -
  note d = ledgerInvD[OF i]
  have lt: "rid < reportIdCounter s" using d(2) kn by simp
  have fl: "\<And>u. flaggedHighRisk (batches s1 u) = flaggedHighRisk (batches s u)"
    by (simp add: bt bf)
  show "indexCoherent s1"
    using d(1) indexCoherent_cong[of s1 s] fl ids pos by simp
  show "\<forall>i. reporter (reports s1 i) \<noteq> 0 \<longrightarrow> i < reportIdCounter s1"
    using d(2) lt by (auto simp: rp c)
  show "\<forall>i. i < reportIdCounter s1 \<longrightarrow> owners s1 (tokenId (reports s1 i)) \<noteq> 0"
    using d(3) lt by (auto simp: rp c ow rt)
  show "\<forall>u. flaggedHighRisk (batches s1 u) \<longrightarrow> owners s1 u \<noteq> 0"
    using d(4) by (simp add: fl ow)
  show "owners s1 t \<noteq> 0" using d(3)[OF lt] by (simp add: ow t)
  show "\<forall>u. u \<noteq> t \<longrightarrow> (quarantined (batches s1 u) \<or> pendingSevereReports (batches s1 u) > 0
                \<longrightarrow> flaggedHighRisk (batches s1 u))"
    using d(5) d(6) by (auto simp: bt)
  show "quarantined B = quarantined (batches s t) \<longrightarrow>
           (quarantined (batches s1 t) \<or> pendingSevereReports (batches s1 t) > 0
                \<longrightarrow> flaggedHighRisk (batches s1 t))"
    using d(5)[of t] d(6)[of t] by (auto simp: bt bf bp split: if_splits)
  have ps: "\<And>u. pendingSevere s1 u = pendingSevere s u - {rid}"
    using rst by (auto simp: pendingSevere_def c rp)
  have mem: "\<And>u. rid \<in> pendingSevere s u \<longleftrightarrow> (u = t \<and> severity (reports s rid) = 3)"
    using lt st by (auto simp: pendingSevere_def t)
  show "\<forall>u. pendingSevereReports (batches s1 u) = card (pendingSevere s1 u)"
  proof
    fix u
    show "pendingSevereReports (batches s1 u) = card (pendingSevere s1 u)"
    proof (cases "u = t \<and> severity (reports s rid) = 3")
      case True
      then have m: "rid \<in> pendingSevere s t" using mem by simp
      then have "card (pendingSevere s t) > 0"
        using finite_pendingSevere[of s t] by (auto simp: card_gt_0_iff)
      then show ?thesis
        using True m d(7)[of t] finite_pendingSevere[of s t]
        by (simp add: ps bt bp)
    next
      case False
      then have "rid \<notin> pendingSevere s u" using mem by simp
      then have "pendingSevere s1 u = pendingSevere s u" by (simp add: ps)
      then show ?thesis using False d(7)[of u] by (auto simp: bt bp)
    qed
  qed
qed

lemma ledgerInv_resolveReport_core:
  assumes i: "ledgerInv s"
    and r: "resolveReport s a now sent [] rid cf = Inr (s', p)"
  shows "ledgerInv s'"
proof -
  define s0 where "s0 = resolveShared s a now rid"
  define t where "t = tokenId (reports s rid)"
  note rq = resolveReport_requires[OF r]
  note sh0 = resolveShared_shape[of s a now rid, folded s0_def]
  have t0: "tokenId (reports s0 rid) = t" by (simp add: sh0 t_def)
  have br: "(if cf then resolveConfirmed s0 rid else resolveRejected s0 rid) = Inr (s', p)"
    unfolding s0_def by (rule resolveReport_branch[OF r])
  show ?thesis
  proof (cases cf)
    case True
    then have "resolveConfirmed s0 rid = Inr (s', p)" using br by simp
    from resolveConfirmed_shape[OF this] obtain s1 where
      r1: "setHighRisk s1 t True = Inr s'"
      and f1: "reportIdCounter s1 = reportIdCounter s0" "owners s1 = owners s0"
        "highRiskBatchIds s1 = highRiskBatchIds s0"
        "highRiskIndexPlusOne s1 = highRiskIndexPlusOne s0"
        "reports s1 = (reports s0)(rid := (reports s0 rid)\<lparr>status := ConfirmedFake\<rparr>)"
        "batches s1 = (batches s0)(t := (batches s0 t)\<lparr>quarantined := True\<rparr>)"
      unfolding t0 by blast
    define R where "R = (reports s rid)
        \<lparr>resolver := a, resolvedAt := uint64 now, status := ConfirmedFake\<rparr>"
    define B where "B = (batches s t)
        \<lparr>batchOpenReports := decFloor (batchOpenReports (batches s t)),
         pendingSevereReports :=
           (if severity (reports s rid) = 3 \<and> pendingSevereReports (batches s t) > 0
            then pendingSevereReports (batches s t) - 1
            else pendingSevereReports (batches s t)),
         quarantined := True\<rparr>"
    have core: "indexCoherent s1"
      "\<forall>i. reporter (reports s1 i) \<noteq> 0 \<longrightarrow> i < reportIdCounter s1"
      "\<forall>i. i < reportIdCounter s1 \<longrightarrow> owners s1 (tokenId (reports s1 i)) \<noteq> 0"
      "\<forall>u. flaggedHighRisk (batches s1 u) \<longrightarrow> owners s1 u \<noteq> 0"
      "\<forall>u. u \<noteq> t \<longrightarrow> (quarantined (batches s1 u) \<or> pendingSevereReports (batches s1 u) > 0
                  \<longrightarrow> flaggedHighRisk (batches s1 u))"
      "\<forall>u. pendingSevereReports (batches s1 u) = card (pendingSevere s1 u)"
      "owners s1 t \<noteq> 0"
      by (rule resolve_core[OF i rq(3) rq(4) t_def, of s1 R B];
          simp add: f1 sh0 R_def B_def t_def[symmetric])+
    show ?thesis
      by (rule setHighRisk_True_ledgerInv
            [OF core(1) core(2) core(3) core(4) core(5) core(6) core(7) r1])
  next
    case False
    then have rr: "resolveRejected s0 rid = Inr (s', p)" using br by simp
    define newRep where "newRep = reputation (reporterProfiles s0 (reporter (reports s0 rid)))
                      - int (12 + severity (reports s0 rid) * 6)"
    define s1 where "s1 = s0\<lparr>reports := (reports s0)(rid := (reports s0 rid)\<lparr>status := RejectedFalse\<rparr>),
                     reporterProfiles := (reporterProfiles s0)(reporter (reports s0 rid) :=
                       (reporterProfiles s0 (reporter (reports s0 rid)))
                       \<lparr>reportsRejected :=
                          reportsRejected (reporterProfiles s0 (reporter (reports s0 rid))) + 1,
                        reputation := newRep,
                        blocked := (if newRep \<le> - 100 then True
                                    else blocked (reporterProfiles s0 (reporter (reports s0 rid))))\<rparr>),
                     bountyPoolWei := bountyPoolWei s0
                       + (stakeAmount (reports s0 rid) * falseReportSlashBps s0) div BPS_DENOMINATOR\<rparr>"
    have alt: "s' = s1 \<or> (\<not> quarantined (batches s0 t)
                   \<and> pendingSevereReports (batches s0 t) = 0
                   \<and> setHighRisk s1 t False = Inr s')"
      using resolveRejected_shape[OF rr] unfolding s1_def newRep_def t0 by simp
    have f1: "reportIdCounter s1 = reportIdCounter s0" "owners s1 = owners s0"
        "highRiskBatchIds s1 = highRiskBatchIds s0"
        "highRiskIndexPlusOne s1 = highRiskIndexPlusOne s0"
        "reports s1 = (reports s0)(rid := (reports s0 rid)\<lparr>status := RejectedFalse\<rparr>)"
        "batches s1 = batches s0"
      by (simp_all add: s1_def)
    define R where "R = (reports s rid)
        \<lparr>resolver := a, resolvedAt := uint64 now, status := RejectedFalse\<rparr>"
    define B where "B = (batches s t)
        \<lparr>batchOpenReports := decFloor (batchOpenReports (batches s t)),
         pendingSevereReports :=
           (if severity (reports s rid) = 3 \<and> pendingSevereReports (batches s t) > 0
            then pendingSevereReports (batches s t) - 1
            else pendingSevereReports (batches s t))\<rparr>"
    have core: "indexCoherent s1"
      "\<forall>i. reporter (reports s1 i) \<noteq> 0 \<longrightarrow> i < reportIdCounter s1"
      "\<forall>i. i < reportIdCounter s1 \<longrightarrow> owners s1 (tokenId (reports s1 i)) \<noteq> 0"
      "\<forall>u. flaggedHighRisk (batches s1 u) \<longrightarrow> owners s1 u \<noteq> 0"
      "\<forall>u. u \<noteq> t \<longrightarrow> (quarantined (batches s1 u) \<or> pendingSevereReports (batches s1 u) > 0
                  \<longrightarrow> flaggedHighRisk (batches s1 u))"
      "\<forall>u. pendingSevereReports (batches s1 u) = card (pendingSevere s1 u)"
      "quarantined B = quarantined (batches s t) \<longrightarrow>
           (quarantined (batches s1 t) \<or> pendingSevereReports (batches s1 t) > 0
                \<longrightarrow> flaggedHighRisk (batches s1 t))"
      by (rule resolve_core[OF i rq(3) rq(4) t_def, of s1 R B];
          simp add: f1 sh0 R_def B_def t_def[symmetric])+
    have qB: "quarantined B = quarantined (batches s t)" by (simp add: B_def)
    have "\<forall>u. quarantined (batches s1 u) \<or> pendingSevereReports (batches s1 u) > 0
                \<longrightarrow> flaggedHighRisk (batches s1 u)"
      using core(5) core(7) qB by (metis (full_types))
    then have i1: "ledgerInv s1"
      unfolding ledgerInv_def using core(1) core(2) core(3) core(4) core(6) by simp
    from alt show ?thesis
    proof
      assume "s' = s1"
      then show ?thesis using i1 by simp
    next
      assume a: "\<not> quarantined (batches s0 t)
                   \<and> pendingSevereReports (batches s0 t) = 0
                   \<and> setHighRisk s1 t False = Inr s'"
      show ?thesis
        by (rule setHighRisk_False_ledgerInv[OF i1 _ _ conjunct2[OF conjunct2[OF a]]])
           (use a in \<open>simp_all add: f1\<close>)
    qed
  qed
qed

lemma ledgerInv_execEntry:
  assumes "ledgerInv s" "execEntry s u = Inr s'"
  shows "ledgerInv s'"
proof (cases u)
  case (Receive a v)
  then show ?thesis using assms ledgerInv_receive by simp
next
  case (RegisterManufacturer a m l n b)
  then show ?thesis using assms ledgerInv_registerManufacturer by simp
next
  case (RegisterLab a l i b)
  then show ?thesis using assms ledgerInv_registerLab by simp
next
  case (SetInspector a i b)
  then show ?thesis using assms ledgerInv_setInspector by simp
next
  case (SetReporterBlocked a w b)
  then show ?thesis using assms ledgerInv_setReporterBlocked by simp
next
  case (SetPolicyParameters a p1 p2 p3 p4 p5 p6 p7 p8)
  then show ?thesis using assms ledgerInv_setPolicyParameters by simp
next
  case (FundBountyPool a v)
  then show ?thesis using assms ledgerInv_fundBountyPool by simp
next
  case (MintBatch a now rec to bn mn ex ah uh sg)
  then show ?thesis
    using assms ledgerInv_mintBatch by (auto simp: map_sum_fst_Inr)
next
  case (MintBatchWithCompliance a now rec to bn mn pn mf ex ah ph sg)
  then show ?thesis
    using assms ledgerInv_mintBatchWithCompliance by (auto simp: map_sum_fst_Inr)
next
  case (TransferToNextOwner a now t n ty)
  then show ?thesis using assms ledgerInv_transferToNextOwner by simp
next
  case (RecordCustodyCheckpoint a t l ty)
  then show ?thesis using assms ledgerInv_recordCustodyCheckpoint by simp
next
  case (SubmitLabAttestation a now t h p c)
  then show ?thesis using assms ledgerInv_submitLabAttestation by simp
next
  case (UpdateFederatedModel a now t m)
  then show ?thesis using assms ledgerInv_updateFederatedModel by simp
next
  case (SetBatchQuarantine a t q rc)
  then show ?thesis using assms ledgerInv_setBatchQuarantine by simp
next
  case (PauseCall a)
  then show ?thesis using assms ledgerInv_pause by simp
next
  case (UnpauseCall a)
  then show ?thesis using assms ledgerInv_unpause by simp
next
  case (GrantRole a r x)
  then show ?thesis using assms ledgerInv_grantRole by simp
next
  case (RevokeRole a r x)
  then show ?thesis using assms ledgerInv_revokeRole by simp
next
  case (RenounceRole a r x)
  then show ?thesis using assms ledgerInv_renounceRole by simp
next
  case (TransferFrom a ap f t i)
  then show ?thesis using assms ledgerInv_transferFrom by simp
qed

text \<open>
  The calls of a payee: one that does not revert is an entry, since the guard stops the
  three others.
\<close>

lemma execNested_entry:
  assumes "execNested s c = Inr s'"
  shows "\<exists>u. c = NestedEntry u \<and> execEntry s u = Inr s'"
  using assms by (cases c) (auto split: if_splits)

lemma applyNested_cases:
  "applyNested s c = s \<or> (\<exists>u. c = NestedEntry u \<and> execEntry s u = Inr (applyNested s c))"
  by (cases "execNested s c") (auto simp: applyNested_def dest: execNested_entry)

lemma ledgerInv_applyNested: "ledgerInv s \<Longrightarrow> ledgerInv (applyNested s c)"
  using applyNested_cases[of s c] ledgerInv_execEntry[of s _ "applyNested s c"] by auto

lemma ledgerInv_runNested: "ledgerInv s \<Longrightarrow> ledgerInv (runNested s cs)"
  by (induction cs arbitrary: s) (simp_all add: ledgerInv_applyNested)

lemma ledgerInv_withdrawBountyPool:
  assumes "ledgerInv s" "withdrawBountyPool s a sent cb amount to = Inr s'"
  shows "ledgerInv s'"
  using withdrawBountyPool_payee[OF assms(2)] assms(1)
    ledgerInv_withdrawBountyPool_core ledgerInv_runNested by blast

lemma ledgerInv_resolveReport:
  assumes "ledgerInv s" "resolveReport s a now sent cb rid cf = Inr (s', p)"
  shows "ledgerInv s'"
proof -
  obtain s1 where r: "resolveReport s a now sent [] rid cf = Inr (s1, p)"
    and s': "s' = (if p > 0 then runNested s1 cb else s1)"
    using resolveReport_payee[OF assms(2)] by blast
  have "ledgerInv s1" by (rule ledgerInv_resolveReport_core[OF assms(1) r])
  then show ?thesis using s' ledgerInv_runNested by simp
qed

lemma ledgerInv_exec:
  assumes "ledgerInv s" "exec s c = Inr s'"
  shows "ledgerInv s'"
proof (cases c)
  case (Entry u)
  then show ?thesis using assms ledgerInv_execEntry by simp
next
  case (WithdrawBountyPool a sent cb amount to)
  then show ?thesis using assms ledgerInv_withdrawBountyPool by simp
next
  case (ReportSuspiciousBatch a v now t n e r sev)
  then show ?thesis
    using assms ledgerInv_reportSuspiciousBatch by (auto simp: map_sum_fst_Inr)
next
  case (ResolveReport a now sent cb r cf)
  then show ?thesis
    using assms ledgerInv_resolveReport by (auto simp: map_sum_fst_Inr)
qed

lemma ledgerInv_apply_call: "ledgerInv s \<Longrightarrow> ledgerInv (apply_call s c)"
  by (auto simp: apply_call_def split: sum.splits dest: ledgerInv_exec)

lemma ledgerInv_run: "ledgerInv s \<Longrightarrow> ledgerInv (run s cs)"
  by (induction cs arbitrary: s) (simp_all add: ledgerInv_apply_call)

lemma ledgerInv_reachable: "ledgerInv (run (constructor d) cs)"
  by (rule ledgerInv_run[OF ledgerInv_constructor])

text \<open>
  Of the entries, only \<open>setReporterBlocked\<close> writes a reporter profile and only
  \<open>setPolicyParameters\<close> the cap on open reports; none writes the reports or the
  nullifier set, and none lowers the bounty pool.
\<close>

lemma setHighRisk_frame_conj:
  assumes "setHighRisk s t b = Inr s'"
  shows "reports s' = reports s \<and> reportIdCounter s' = reportIdCounter s
       \<and> identityNullifierUsed s' = identityNullifierUsed s
       \<and> reporterProfiles s' = reporterProfiles s
       \<and> maxOpenReportsPerReporter s' = maxOpenReportsPerReporter s
       \<and> bountyPoolWei s' = bountyPoolWei s"
  using setHighRisk_frame[OF assms] by simp

lemma execEntry_frame:
  assumes "execEntry s u = Inr s'"
  shows "(\<exists>a w b. u = SetReporterBlocked a w b)
       \<or> (\<exists>a p1 p2 p3 p4 p5 p6 p7 p8. u = SetPolicyParameters a p1 p2 p3 p4 p5 p6 p7 p8)
       \<or> (reports s' = reports s \<and> reportIdCounter s' = reportIdCounter s
            \<and> identityNullifierUsed s' = identityNullifierUsed s
            \<and> reporterProfiles s' = reporterProfiles s
            \<and> maxOpenReportsPerReporter s' = maxOpenReportsPerReporter s
            \<and> bountyPoolWei s \<le> bountyPoolWei s')"
proof (cases u)
  case (MintBatch a now rec to bn mn ex ah uh sg)
  then show ?thesis
    using assms
    by (auto simp: map_sum_fst_Inr mintBatch_def mintBatchInternal_def Let_def
             split: if_splits option.splits)
next
  case (MintBatchWithCompliance a now rec to bn mn pn mf ex ah ph sg)
  then show ?thesis
    using assms
    by (auto simp: map_sum_fst_Inr mintBatchWithCompliance_def mintBatchInternal_def Let_def
             split: if_splits option.splits)
next
  case (SubmitLabAttestation a now t h p c)
  then show ?thesis
    using assms
    by (auto simp: submitLabAttestation_def Let_def split: if_splits
             dest!: setHighRisk_frame_conj)
next
  case (SetBatchQuarantine a t q rc)
  then show ?thesis
    using assms
    by (auto simp: setBatchQuarantine_def Let_def split: if_splits
             dest!: setHighRisk_frame_conj)
qed (use assms in \<open>auto simp: receive_def registerManufacturer_def registerLab_def
       setInspector_def fundBountyPool_def transferToNextOwner_def
       recordCustodyCheckpoint_def updateFederatedModel_def pause_def unpause_def
       grantRole_def revokeRole_def renounceRole_def transferFrom_def
       split: if_splits\<close>)

section \<open>What filing and resolving a report change\<close>

lemma setHighRisk_frame_all:
  assumes "setHighRisk s t b = Inr s'"
  shows "reports s' = reports s \<and> reportIdCounter s' = reportIdCounter s
            \<and> identityNullifierUsed s' = identityNullifierUsed s
            \<and> reporterProfiles s' = reporterProfiles s
            \<and> maxOpenReportsPerReporter s' = maxOpenReportsPerReporter s
            \<and> paused s' = paused s \<and> roles s' = roles s"
  using setHighRisk_frame[OF assms] by simp

lemma reportSuspiciousBatch_effect:
  assumes "reportSuspiciousBatch s a v now t n e r sev = Inr (s', rid)"
  shows "n \<noteq> 0"
    and "\<not> blocked (reporterProfiles s a)"
    and "openReports (reporterProfiles s a) < maxOpenReportsPerReporter s"
    and "identityNullifierUsed s' = (identityNullifierUsed s)(n := True)"
    and "maxOpenReportsPerReporter s' = maxOpenReportsPerReporter s"
    and "rid = reportIdCounter s"
    and "\<forall>i. i \<noteq> reportIdCounter s \<longrightarrow> reports s' i = reports s i"
    and "\<forall>w. blocked (reporterProfiles s' w) = blocked (reporterProfiles s w)"
    and "\<forall>w. openReports (reporterProfiles s' w)
           = (if w = a then openReports (reporterProfiles s a) + 1
              else openReports (reporterProfiles s w))"
    and "reportIdCounter s' = reportIdCounter s + 1"
    and "reporter (reports s' (reportIdCounter s)) = a"
    and "status (reports s' (reportIdCounter s)) = Pending"
  using assms
  by (simp_all only: reportSuspiciousBatch_def Let_def)
     (auto split: if_splits sum.splits dest!: setHighRisk_frame_all)

lemma resolveShared_profiles:
  "openReports (reporterProfiles (resolveShared s a now rid) w)
     \<le> openReports (reporterProfiles s w)"
  "identityNullifierUsed (resolveShared s a now rid) = identityNullifierUsed s"
  "maxOpenReportsPerReporter (resolveShared s a now rid) = maxOpenReportsPerReporter s"
  "i \<noteq> rid \<Longrightarrow> reports (resolveShared s a now rid) i = reports s i"
  "status (reports (resolveShared s a now rid) rid) = status (reports s rid)"
  "reportIdCounter (resolveShared s a now rid) = reportIdCounter s"
  "openReports (reporterProfiles (resolveShared s a now rid) w)
     = (if w = reporter (reports s rid) then openReports (reporterProfiles s w) - 1
        else openReports (reporterProfiles s w))"
  by (simp_all add: resolveShared_def Let_def decFloor_eq)

lemma resolveConfirmed_effect:
  assumes "resolveConfirmed s rid = Inr (s', p)"
  shows "identityNullifierUsed s' = identityNullifierUsed s"
    and "maxOpenReportsPerReporter s' = maxOpenReportsPerReporter s"
    and "\<forall>i. i \<noteq> rid \<longrightarrow> reports s' i = reports s i"
    and "status (reports s' rid) = ConfirmedFake"
    and "reporter (reports s' rid) = reporter (reports s rid)"
    and "\<forall>w. blocked (reporterProfiles s' w) = blocked (reporterProfiles s w)"
    and "\<forall>w. openReports (reporterProfiles s' w) = openReports (reporterProfiles s w)"
    and "reportIdCounter s' = reportIdCounter s"
  using assms
  by (simp_all only: resolveConfirmed_def Let_def if_gt_min if_pos_sub if_pos_add)
     (auto split: if_splits sum.splits dest!: setHighRisk_frame_all)

lemma resolveRejected_effect:
  assumes "resolveRejected s rid = Inr (s', p)"
  shows "identityNullifierUsed s' = identityNullifierUsed s"
    and "maxOpenReportsPerReporter s' = maxOpenReportsPerReporter s"
    and "\<forall>i. i \<noteq> rid \<longrightarrow> reports s' i = reports s i"
    and "status (reports s' rid) = RejectedFalse"
    and "reporter (reports s' rid) = reporter (reports s rid)"
    and "\<forall>w. blocked (reporterProfiles s w) \<longrightarrow> blocked (reporterProfiles s' w)"
    and "reputation (reporterProfiles s' (reporter (reports s rid))) \<le> - 100
           \<longrightarrow> blocked (reporterProfiles s' (reporter (reports s rid)))"
    and "\<forall>w. openReports (reporterProfiles s' w) = openReports (reporterProfiles s w)"
    and "reportIdCounter s' = reportIdCounter s"
  using assms
  by (simp_all only: resolveRejected_def Let_def)
     (auto split: if_splits sum.splits dest!: setHighRisk_frame_all)

lemma resolveReport_effect:
  assumes r: "resolveReport s a now sent [] rid cf = Inr (s', p)"
  shows "identityNullifierUsed s' = identityNullifierUsed s"
    and "maxOpenReportsPerReporter s' = maxOpenReportsPerReporter s"
    and "\<forall>i. i \<noteq> rid \<longrightarrow> reports s' i = reports s i"
    and "status (reports s' rid) = (if cf then ConfirmedFake else RejectedFalse)"
    and "reporter (reports s' rid) = reporter (reports s rid)"
    and "\<forall>w. blocked (reporterProfiles s w) \<longrightarrow> blocked (reporterProfiles s' w)"
    and "\<not> cf \<and> reputation (reporterProfiles s' (reporter (reports s rid))) \<le> - 100
           \<longrightarrow> blocked (reporterProfiles s' (reporter (reports s rid)))"
    and "\<forall>w. openReports (reporterProfiles s' w) \<le> openReports (reporterProfiles s w)"
    and "reportIdCounter s' = reportIdCounter s"
    and "\<forall>w. openReports (reporterProfiles s' w)
           = (if w = reporter (reports s rid) then openReports (reporterProfiles s w) - 1
              else openReports (reporterProfiles s w))"
proof -
  let ?s0 = "resolveShared s a now rid"
  note b = resolveReport_branch[OF r]
  show "identityNullifierUsed s' = identityNullifierUsed s"
    using b resolveConfirmed_effect(1)[of ?s0 rid s' p] resolveRejected_effect(1)[of ?s0 rid s' p]
    by (cases cf) (simp_all add: resolveShared_profiles)
  show "maxOpenReportsPerReporter s' = maxOpenReportsPerReporter s"
    using b resolveConfirmed_effect(2)[of ?s0 rid s' p] resolveRejected_effect(2)[of ?s0 rid s' p]
    by (cases cf) (simp_all add: resolveShared_profiles)
  show "\<forall>i. i \<noteq> rid \<longrightarrow> reports s' i = reports s i"
    using b resolveConfirmed_effect(3)[of ?s0 rid s' p] resolveRejected_effect(3)[of ?s0 rid s' p]
    by (cases cf) (simp_all add: resolveShared_profiles)
  show "status (reports s' rid) = (if cf then ConfirmedFake else RejectedFalse)"
    using b resolveConfirmed_effect(4)[of ?s0 rid s' p] resolveRejected_effect(4)[of ?s0 rid s' p]
    by (cases cf) simp_all
  show "reporter (reports s' rid) = reporter (reports s rid)"
    using b resolveConfirmed_effect(5)[of ?s0 rid s' p] resolveRejected_effect(5)[of ?s0 rid s' p]
    by (cases cf) (simp_all add: resolveShared_fields)
  show "\<forall>w. blocked (reporterProfiles s w) \<longrightarrow> blocked (reporterProfiles s' w)"
    using b resolveConfirmed_effect(6)[of ?s0 rid s' p] resolveRejected_effect(6)[of ?s0 rid s' p]
    by (cases cf) (simp_all add: resolveShared_fields)
  show "\<not> cf \<and> reputation (reporterProfiles s' (reporter (reports s rid))) \<le> - 100
           \<longrightarrow> blocked (reporterProfiles s' (reporter (reports s rid)))"
    using b resolveRejected_effect(7)[of ?s0 rid s' p]
    by (cases cf) (simp_all add: resolveShared_fields)
  show "\<forall>w. openReports (reporterProfiles s' w) \<le> openReports (reporterProfiles s w)"
    using b resolveConfirmed_effect(7)[of ?s0 rid s' p] resolveRejected_effect(8)[of ?s0 rid s' p]
      resolveShared_profiles(1)[of s a now rid]
    by (cases cf) simp_all
  show "reportIdCounter s' = reportIdCounter s"
    using b resolveConfirmed_effect(8)[of ?s0 rid s' p] resolveRejected_effect(9)[of ?s0 rid s' p]
    by (cases cf) (simp_all add: resolveShared_profiles)
  show "\<forall>w. openReports (reporterProfiles s' w)
           = (if w = reporter (reports s rid) then openReports (reporterProfiles s w) - 1
              else openReports (reporterProfiles s w))"
    using b resolveConfirmed_effect(7)[of ?s0 rid s' p] resolveRejected_effect(8)[of ?s0 rid s' p]
      resolveShared_profiles(7)[of s a now rid]
    by (cases cf) simp_all
qed

lemma resolveReport_rejected_reputation:
  assumes r: "resolveReport s a now sent [] rid False = Inr (s', p)"
  shows "reputation (reporterProfiles s' (reporter (reports s rid)))
           = reputation (reporterProfiles s (reporter (reports s rid)))
             - (12 + int (severity (reports s rid)) * 6)"
proof -
  have "resolveRejected (resolveShared s a now rid) rid = Inr (s', p)"
    using resolveReport_branch[OF r] by simp
  from resolveRejected_result(4)[OF this] show ?thesis
    by (simp add: resolveShared_fields)
qed

section \<open>What every transaction keeps\<close>

lemma setReporterBlocked_effect:
  assumes "setReporterBlocked s a w b = Inr s'"
  shows "reports s' = reports s" "identityNullifierUsed s' = identityNullifierUsed s"
    "maxOpenReportsPerReporter s' = maxOpenReportsPerReporter s"
    "\<forall>x. openReports (reporterProfiles s' x) = openReports (reporterProfiles s x)"
    "\<forall>x. blocked (reporterProfiles s' x) = (if x = w then b else blocked (reporterProfiles s x))"
    "reportIdCounter s' = reportIdCounter s"
    "\<forall>x. reputation (reporterProfiles s' x) = reputation (reporterProfiles s x)"
    "bountyPoolWei s' = bountyPoolWei s"
    "roles s REGULATOR_ROLE a"
  using assms by (auto simp: setReporterBlocked_def split: if_splits)

lemma setPolicyParameters_effect:
  assumes "setPolicyParameters s a p1 p2 p3 p4 p5 p6 p7 p8 = Inr s'"
  shows "reports s' = reports s" "identityNullifierUsed s' = identityNullifierUsed s"
    "reporterProfiles s' = reporterProfiles s"
    "maxOpenReportsPerReporter s' = p7"
    "reportIdCounter s' = reportIdCounter s"
    "bountyPoolWei s' = bountyPoolWei s"
  using assms by (auto simp: setPolicyParameters_def split: if_splits)

lemma execEntry_cases:
  assumes "execEntry s u = Inr s'"
  obtains (blocked) a w b where "u = SetReporterBlocked a w b"
      "setReporterBlocked s a w b = Inr s'"
    | (policy) a p1 p2 p3 p4 p5 p6 p7 p8 where
      "u = SetPolicyParameters a p1 p2 p3 p4 p5 p6 p7 p8"
      "setPolicyParameters s a p1 p2 p3 p4 p5 p6 p7 p8 = Inr s'"
    | (other) "reports s' = reports s" "reportIdCounter s' = reportIdCounter s"
      "identityNullifierUsed s' = identityNullifierUsed s"
      "reporterProfiles s' = reporterProfiles s"
      "maxOpenReportsPerReporter s' = maxOpenReportsPerReporter s"
      "bountyPoolWei s \<le> bountyPoolWei s'"
  using execEntry_frame[OF assms] assms by auto

text \<open>
  No entry writes a report, the report counter, the nullifier set, the open reports or the
  reputation of a profile, and none lowers the pool; so neither do the calls of a payee.
\<close>

lemma execEntry_keeps:
  assumes e: "execEntry s u = Inr s'"
  shows "reports s' = reports s \<and> reportIdCounter s' = reportIdCounter s
       \<and> identityNullifierUsed s' = identityNullifierUsed s
       \<and> (\<forall>x. openReports (reporterProfiles s' x) = openReports (reporterProfiles s x))
       \<and> (\<forall>x. reputation (reporterProfiles s' x) = reputation (reporterProfiles s x))
       \<and> bountyPoolWei s \<le> bountyPoolWei s'"
  using e
proof (cases rule: execEntry_cases)
  case (blocked a w b)
  note f = setReporterBlocked_effect[OF blocked(2)]
  show ?thesis using f(1) f(2) f(4) f(6) f(7) f(8) by simp
next
  case (policy a p1 p2 p3 p4 p5 p6 p7 p8)
  note f = setPolicyParameters_effect[OF policy(2)]
  show ?thesis using f(1) f(2) f(3) f(5) f(6) by simp
next
  case other
  then show ?thesis by simp
qed

lemma applyNested_keeps:
  "reports (applyNested s c) = reports s
     \<and> reportIdCounter (applyNested s c) = reportIdCounter s
     \<and> identityNullifierUsed (applyNested s c) = identityNullifierUsed s
     \<and> (\<forall>x. openReports (reporterProfiles (applyNested s c) x)
              = openReports (reporterProfiles s x))
     \<and> (\<forall>x. reputation (reporterProfiles (applyNested s c) x)
              = reputation (reporterProfiles s x))
     \<and> bountyPoolWei s \<le> bountyPoolWei (applyNested s c)"
  using applyNested_cases[of s c]
proof
  assume "applyNested s c = s"
  then show ?thesis by simp
next
  assume "\<exists>u. c = NestedEntry u \<and> execEntry s u = Inr (applyNested s c)"
  then obtain u where "execEntry s u = Inr (applyNested s c)" by blast
  then show ?thesis by (rule execEntry_keeps)
qed

lemma runNested_keeps:
  "reports (runNested s cs) = reports s
     \<and> reportIdCounter (runNested s cs) = reportIdCounter s
     \<and> identityNullifierUsed (runNested s cs) = identityNullifierUsed s
     \<and> (\<forall>x. openReports (reporterProfiles (runNested s cs) x)
              = openReports (reporterProfiles s x))
     \<and> (\<forall>x. reputation (reporterProfiles (runNested s cs) x)
              = reputation (reporterProfiles s x))
     \<and> bountyPoolWei s \<le> bountyPoolWei (runNested s cs)"
proof (induction cs arbitrary: s)
  case Nil
  then show ?case by simp
next
  case (Cons c cs)
  show ?case using Cons.IH[of "applyNested s c"] applyNested_keeps[of s c] by simp
qed

lemma withdrawBountyPool_effect:
  assumes "withdrawBountyPool s a sent [] amount to = Inr s1"
  shows "s1 = s\<lparr>bountyPoolWei := bountyPoolWei s - amount\<rparr>"
    and "amount \<le> bountyPoolWei s"
    and "roles s DEFAULT_ADMIN_ROLE a"
    and "sent"
  using assms by (auto simp: withdrawBountyPool_def split: if_splits)

text \<open>
  A transaction that does not revert, and the storage \<open>s1\<close> at the moment of its transfer
  when it makes one.
\<close>

lemma exec_cases:
  assumes "exec s c = Inr s'"
  obtains (entry) u where "c = Entry u" "execEntry s u = Inr s'"
    | (withdraw) a sent cb amount to where "c = WithdrawBountyPool a sent cb amount to"
      "withdrawBountyPool s a sent [] amount to
         = Inr (s\<lparr>bountyPoolWei := bountyPoolWei s - amount\<rparr>)"
      "s' = runNested (s\<lparr>bountyPoolWei := bountyPoolWei s - amount\<rparr>) cb"
    | (report) a v now t n e r sev rid where "c = ReportSuspiciousBatch a v now t n e r sev"
      "reportSuspiciousBatch s a v now t n e r sev = Inr (s', rid)"
    | (resolve) a now sent cb r cf p s1 where "c = ResolveReport a now sent cb r cf"
      "resolveReport s a now sent [] r cf = Inr (s1, p)"
      "s' = (if p > 0 then runNested s1 cb else s1)"
proof (cases c)
  case (Entry u)
  then show ?thesis using assms entry by simp
next
  case (WithdrawBountyPool a sent cb amount to)
  then have "withdrawBountyPool s a sent cb amount to = Inr s'" using assms by simp
  from withdrawBountyPool_payee[OF this] obtain s1 where
    w: "withdrawBountyPool s a sent [] amount to = Inr s1" and s': "s' = runNested s1 cb"
    by blast
  have "s1 = s\<lparr>bountyPoolWei := bountyPoolWei s - amount\<rparr>"
    by (rule withdrawBountyPool_effect(1)[OF w])
  then show ?thesis using withdraw[OF WithdrawBountyPool] w s' by simp
next
  case (ReportSuspiciousBatch a v now t n e r sev)
  then show ?thesis using assms report by (auto simp: map_sum_fst_Inr)
next
  case (ResolveReport a now sent cb r cf)
  then obtain p where "resolveReport s a now sent cb r cf = Inr (s', p)"
    using assms by (auto simp: map_sum_fst_Inr)
  from resolveReport_payee[OF this] show ?thesis using resolve[OF ResolveReport] by blast
qed

lemma apply_call_cases:
  "apply_call s c = s \<or> exec s c = Inr (apply_call s c)"
  by (cases "exec s c") (auto simp: apply_call_def)

text \<open>
  What \<^verbatim>\<open>resolveReport\<close> leaves when it returns, whatever the reporter does during the
  payout.
\<close>

lemma resolveReport_keeps:
  assumes r: "resolveReport s a now sent cb rid cf = Inr (s', p)"
  shows "identityNullifierUsed s' = identityNullifierUsed s"
    and "\<forall>i. i \<noteq> rid \<longrightarrow> reports s' i = reports s i"
    and "status (reports s' rid) = (if cf then ConfirmedFake else RejectedFalse)"
    and "reporter (reports s' rid) = reporter (reports s rid)"
    and "reportIdCounter s' = reportIdCounter s"
    and "\<forall>w. openReports (reporterProfiles s' w)
           = (if w = reporter (reports s rid) then openReports (reporterProfiles s w) - 1
              else openReports (reporterProfiles s w))"
proof -
  obtain s1 where r1: "resolveReport s a now sent [] rid cf = Inr (s1, p)"
    and s': "s' = (if p > 0 then runNested s1 cb else s1)"
    using resolveReport_payee[OF r] by blast
  note f = resolveReport_effect[OF r1]
  have k: "reports s' = reports s1 \<and> reportIdCounter s' = reportIdCounter s1
       \<and> identityNullifierUsed s' = identityNullifierUsed s1
       \<and> (\<forall>x. openReports (reporterProfiles s' x) = openReports (reporterProfiles s1 x))"
    using runNested_keeps[of s1 cb] s' by simp
  show "identityNullifierUsed s' = identityNullifierUsed s" using k f(1) by simp
  show "\<forall>i. i \<noteq> rid \<longrightarrow> reports s' i = reports s i" using k f(3) by simp
  show "status (reports s' rid) = (if cf then ConfirmedFake else RejectedFalse)"
    using k f(4) by simp
  show "reporter (reports s' rid) = reporter (reports s rid)" using k f(5) by simp
  show "reportIdCounter s' = reportIdCounter s" using k f(9) by simp
  show "\<forall>w. openReports (reporterProfiles s' w)
           = (if w = reporter (reports s rid) then openReports (reporterProfiles s w) - 1
              else openReports (reporterProfiles s w))"
    using k f(10) by simp
qed

text \<open>A used nullifier stays used.\<close>

lemma exec_nullifier:
  assumes u: "identityNullifierUsed s n" and e: "exec s c = Inr s'"
  shows "identityNullifierUsed s' n"
  using e
proof (cases rule: exec_cases)
  case (entry x)
  then show ?thesis using u execEntry_keeps[of s x s'] by simp
next
  case (withdraw a sent cb amount to)
  then show ?thesis
    using u runNested_keeps[of "s\<lparr>bountyPoolWei := bountyPoolWei s - amount\<rparr>" cb] by simp
next
  case (report a v now t m e r sev rid)
  then show ?thesis using u reportSuspiciousBatch_effect(4) by simp
next
  case (resolve a now sent cb r cf p s1)
  then show ?thesis
    using u resolveReport_effect(1)[OF resolve(2)] runNested_keeps[of s1 cb] by simp
qed

lemma run_nullifier: "identityNullifierUsed s n \<Longrightarrow> identityNullifierUsed (run s cs) n"
proof (induction cs arbitrary: s)
  case Nil
  then show ?case by simp
next
  case (Cons c cs)
  have "identityNullifierUsed (apply_call s c) n"
    using apply_call_cases[of s c] Cons.prems exec_nullifier[of s n c "apply_call s c"] by auto
  then show ?case using Cons.IH by simp
qed

lemma used_nullifier_rejected:
  assumes "identityNullifierUsed s n" "n \<noteq> 0"
  shows "reportSuspiciousBatch s a v now t n e r sev = Inl EnforcedPause
       \<or> reportSuspiciousBatch s a v now t n e r sev = Inl (Revert ''Unknown batch'')
       \<or> reportSuspiciousBatch s a v now t n e r sev = Inl (Revert ''Nullifier already used'')"
  using assms
  by (cases "paused s"; cases "owners s t = 0"; simp add: reportSuspiciousBatch_def Let_def)



text \<open>A settled report is never written again.\<close>

lemma exec_settled:
  assumes i: "ledgerInv s"
    and k: "reporter (reports s rid) \<noteq> 0"
    and st: "status (reports s rid) \<noteq> Pending"
    and e: "exec s c = Inr s'"
  shows "reports s' rid = reports s rid"
  using e
proof (cases rule: exec_cases)
  case (entry x)
  then show ?thesis using execEntry_keeps[of s x s'] by simp
next
  case (withdraw a sent cb amount to)
  then show ?thesis
    using runNested_keeps[of "s\<lparr>bountyPoolWei := bountyPoolWei s - amount\<rparr>" cb] by simp
next
  case (report a v now t n e r sev rid')
  have "rid < reportIdCounter s" using ledgerInvD(2)[OF i k] .
  then show ?thesis using reportSuspiciousBatch_effect(7)[OF report(2)] by simp
next
  case (resolve a now sent cb r cf p s1)
  have "status (reports s r) = Pending" using resolveReport_requires(4)[OF resolve(2)] .
  then have "rid \<noteq> r" using st by auto
  then show ?thesis
    using resolveReport_effect(3)[OF resolve(2)] runNested_keeps[of s1 cb] resolve(3)
    by simp
qed

lemma run_settled:
  assumes "ledgerInv s" "reporter (reports s rid) \<noteq> 0" "status (reports s rid) \<noteq> Pending"
  shows "reports (run s cs) rid = reports s rid"
  using assms
proof (induction cs arbitrary: s)
  case Nil
  then show ?case by simp
next
  case (Cons c cs)
  have same: "reports (apply_call s c) rid = reports s rid"
    using apply_call_cases[of s c] Cons.prems exec_settled[of s rid c "apply_call s c"]
    by auto
  have "reports (run (apply_call s c) cs) rid = reports (apply_call s c) rid"
    by (rule Cons.IH) (use Cons.prems same ledgerInv_apply_call in simp_all)
  then show ?case using same by simp
qed

lemma settled_resolve_rejected:
  assumes "reporter (reports s rid) \<noteq> 0" "status (reports s rid) \<noteq> Pending"
  shows "resolveReport s a now sent cb rid cf = Inl EnforcedPause
       \<or> resolveReport s a now sent cb rid cf
            = Inl (AccessControlUnauthorizedAccount a REGULATOR_ROLE)
       \<or> resolveReport s a now sent cb rid cf = Inl (Revert ''Already resolved'')"
  using assms
  by (cases "paused s"; cases "roles s REGULATOR_ROLE a"; simp add: resolveReport_def)

text \<open>
  Only a \<open>setReporterBlocked (who, false)\<close> that takes effect unblocks: as an entry, among
  the calls of a payee, and as a transaction.
\<close>

lemma execEntry_blocked:
  assumes b: "blocked (reporterProfiles s w)" and n: "\<not> entryUnblocks w s u"
    and e: "execEntry s u = Inr s'"
  shows "blocked (reporterProfiles s' w)"
  using e
proof (cases rule: execEntry_cases)
  case (blocked a x v)
  note f = setReporterBlocked_effect[OF blocked(2)]
  show ?thesis using b n blocked(1) f(5) f(9) by auto
next
  case (policy a p1 p2 p3 p4 p5 p6 p7 p8)
  then show ?thesis using b setPolicyParameters_effect(3) by simp
next
  case other
  then show ?thesis using b by simp
qed

lemma applyNested_blocked:
  assumes b: "blocked (reporterProfiles s w)" and n: "\<not> nestedUnblocks w s c"
  shows "blocked (reporterProfiles (applyNested s c) w)"
  using applyNested_cases[of s c]
proof
  assume "applyNested s c = s"
  then show ?thesis using b by simp
next
  assume "\<exists>u. c = NestedEntry u \<and> execEntry s u = Inr (applyNested s c)"
  then obtain u where u: "c = NestedEntry u" "execEntry s u = Inr (applyNested s c)"
    by blast
  show ?thesis by (rule execEntry_blocked[OF b _ u(2)]) (use n u(1) in simp)
qed

lemma runNested_blocked:
  assumes "blocked (reporterProfiles s w)" "\<not> callbackUnblocks w s cs"
  shows "blocked (reporterProfiles (runNested s cs) w)"
  using assms
proof (induction cs arbitrary: s)
  case Nil
  then show ?case by simp
next
  case (Cons c cs)
  have "blocked (reporterProfiles (applyNested s c) w)"
    by (rule applyNested_blocked) (use Cons.prems in simp_all)
  then show ?case using Cons.IH[of "applyNested s c"] Cons.prems(2) by simp
qed

lemma exec_blocked:
  assumes b: "blocked (reporterProfiles s w)" and n: "\<not> callUnblocks w s c"
    and e: "exec s c = Inr s'"
  shows "blocked (reporterProfiles s' w)"
  using e
proof (cases rule: exec_cases)
  case (entry u)
  show ?thesis by (rule execEntry_blocked[OF b _ entry(2)]) (use n entry(1) in simp)
next
  case (withdraw a sent cb amount to)
  have "\<not> callbackUnblocks w (s\<lparr>bountyPoolWei := bountyPoolWei s - amount\<rparr>) cb"
    using n withdraw(1) withdraw(2) by simp
  then show ?thesis
    using runNested_blocked[of "s\<lparr>bountyPoolWei := bountyPoolWei s - amount\<rparr>" w cb] b
      withdraw(3)
    by simp
next
  case (report a v now t m e r sev rid)
  then show ?thesis using b reportSuspiciousBatch_effect(8) by simp
next
  case (resolve a now sent cb r cf p s1)
  have b1: "blocked (reporterProfiles s1 w)"
    using b resolveReport_effect(6)[OF resolve(2)] by simp
  show ?thesis
  proof (cases "p > 0")
    case True
    then have "\<not> callbackUnblocks w s1 cb" using n resolve(1) resolve(2) by simp
    then show ?thesis using runNested_blocked[OF b1] resolve(3) True by simp
  next
    case False
    then show ?thesis using b1 resolve(3) by simp
  qed
qed

lemma run_blocked:
  assumes "blocked (reporterProfiles s w)" "neverUnblocked w s cs"
  shows "blocked (reporterProfiles (run s cs) w)"
  using assms
proof (induction cs arbitrary: s)
  case Nil
  then show ?case by simp
next
  case (Cons c cs)
  have n: "\<not> callUnblocks w s c" and rest: "neverUnblocked w (apply_call s c) cs"
    using Cons.prems(2) by simp_all
  have "blocked (reporterProfiles (apply_call s c) w)"
    using apply_call_cases[of s c] Cons.prems(1) n exec_blocked[of s w c "apply_call s c"]
    by auto
  then show ?case using Cons.IH[OF _ rest] by simp
qed

lemma blocked_reporter_rejected:
  assumes "blocked (reporterProfiles s a)"
  shows "\<exists>err. reportSuspiciousBatch s a v now t n e r sev = Inl err"
  using assms
  by (cases "paused s"; cases "owners s t = 0"; cases "n = 0";
      cases "identityNullifierUsed s n"; cases "sev \<ge> 1 \<and> sev \<le> 3";
      simp add: reportSuspiciousBatch_def Let_def)

text \<open>
  A reverted \<open>setReporterBlocked\<close> is no unblocking: the caller lacks the role, and the
  transaction leaves the storage as it was.
\<close>

lemma setReporterBlocked_gate:
  assumes "\<not> roles s REGULATOR_ROLE a"
  shows "setReporterBlocked s a w b = Inl (AccessControlUnauthorizedAccount a REGULATOR_ROLE)"
    and "apply_call s (Entry (SetReporterBlocked a w b)) = s"
    and "\<not> callUnblocks w s (Entry (SetReporterBlocked a w b))"
  using assms by (simp_all add: setReporterBlocked_def apply_call_def)

section \<open>The open reports of a profile are its pending reports\<close>










section \<open>The debits of the bounty pool\<close>

lemma reportSuspiciousBatch_pool:
  assumes "reportSuspiciousBatch s a v now t n e r sev = Inr (s', rid)"
  shows "bountyPoolWei s' = bountyPoolWei s"
  using assms
  by (simp only: reportSuspiciousBatch_def Let_def)
     (auto split: if_splits sum.splits dest!: setHighRisk_frame(1))

lemma resolveReport_rejected_pool:
  assumes r: "resolveReport s a now sent [] rid False = Inr (s', p)"
  shows "bountyPoolWei s' = bountyPoolWei s
           + (stakeAmount (reports s rid) * falseReportSlashBps s) div BPS_DENOMINATOR"
proof -
  have "resolveRejected (resolveShared s a now rid) rid = Inr (s', p)"
    using resolveReport_branch[OF r] by simp
  from resolveRejected_result(3)[OF this] show ?thesis
    by (simp add: resolveShared_fields)
qed

lemma resolveReport_confirmed_pool:
  assumes r: "resolveReport s a now sent [] rid True = Inr (s', p)"
  shows "bountyPoolWei s' = bountyPoolWei s
           - min (baseRewardWei s * severity (reports s rid)) (bountyPoolWei s)"
proof -
  have "resolveConfirmed (resolveShared s a now rid) rid = Inr (s', p)"
    using resolveReport_branch[OF r] by simp
  from resolveConfirmed_result(2)[OF this] show ?thesis
    by (simp add: resolveShared_fields)
qed

text \<open>
  The payee's calls can only add to the pool: the storage when a transfer function returns
  holds at least what it held when the transfer was made.
\<close>

lemma runNested_pool: "bountyPoolWei s \<le> bountyPoolWei (runNested s cs)"
  using runNested_keeps[of s cs] by simp

lemma runNested_reputation:
  "reputation (reporterProfiles (runNested s cs) w) = reputation (reporterProfiles s w)"
  using runNested_keeps[of s cs] by simp

lemma exec_pool_debit:
  assumes e: "exec s c = Inr s'" and less: "bountyPoolWei s' < bountyPoolWei s"
  shows "(\<exists>a now sent cb rid. c = ResolveReport a now sent cb rid True)
       \<or> (\<exists>a sent cb amount to. c = WithdrawBountyPool a sent cb amount to)"
  using e
proof (cases rule: exec_cases)
  case (entry u)
  then show ?thesis using less execEntry_keeps[of s u s'] by simp
next
  case (withdraw a sent cb amount to)
  then show ?thesis by simp
next
  case (report a v now t n ev r sev rid)
  then show ?thesis using less reportSuspiciousBatch_pool by simp
next
  case (resolve a now sent cb r cf p s1)
  show ?thesis
  proof (cases cf)
    case True
    then show ?thesis using resolve(1) by simp
  next
    case False
    then have "bountyPoolWei s \<le> bountyPoolWei s1"
      using resolveReport_rejected_pool[of s a now sent r s1 p] resolve(2) by simp
    moreover have "bountyPoolWei s1 \<le> bountyPoolWei s'"
      using resolve(3) runNested_pool[of s1 cb] by simp
    ultimately show ?thesis using less by simp
  qed
qed

section \<open>Stake accounting at resolution\<close>

text \<open>
  C1, as the code has it. A report resolved with \<open>confirmedFake = false\<close>: the slashed
  amount is \<open>stakeAmount * falseReportSlashBps div 10000\<close>, the payout is the stake less
  the slash (so the stake is the payout plus the pool's credit), and the reporter's
  reputation falls by \<open>12 + severity * 6\<close>. \<open>resolveReport\<close> credits the pool with
  exactly the slash before it pays the reporter: the pool when the payout is sent (the
  storage \<open>s1\<close> that the call returns when the reporter calls nothing) is the pool at the
  call plus the slash. The storage when the call returns is \<open>s1\<close> followed by the
  reporter's calls during the payout, which can only add to the pool; with no such call the
  pool has grown by exactly the slash.
\<close>

theorem resolveReport_rejected_accounting:
  assumes "resolveReport s msg_sender now sent callback rid False = Inr (s', payoutWei)"
  shows "(let stake = stakeAmount (reports s rid);
              slashed = (stake * falseReportSlashBps s) div BPS_DENOMINATOR
          in payoutWei = stake - slashed
             \<and> stake = payoutWei + slashed
             \<and> (\<exists>s1. resolveReport s msg_sender now sent [] rid False = Inr (s1, payoutWei)
                    \<and> bountyPoolWei s1 = bountyPoolWei s + slashed
                    \<and> s' = (if payoutWei > 0 then runNested s1 callback else s1))
             \<and> bountyPoolWei s + slashed \<le> bountyPoolWei s'
             \<and> (callback = [] \<longrightarrow> bountyPoolWei s' = bountyPoolWei s + slashed)
             \<and> reputation (reporterProfiles s' (reporter (reports s rid)))
                 = reputation (reporterProfiles s (reporter (reports s rid)))
                   - (12 + int (severity (reports s rid)) * 6))"
proof -
  obtain s1 where r1: "resolveReport s msg_sender now sent [] rid False = Inr (s1, payoutWei)"
    and s': "s' = (if payoutWei > 0 then runNested s1 callback else s1)"
    using resolveReport_payee[OF assms] by blast
  from resolveReport_branch[OF r1]
  have r: "resolveRejected (resolveShared s msg_sender now rid) rid = Inr (s1, payoutWei)"
    by simp
  note f = resolveRejected_result[OF r]
  have pool1: "bountyPoolWei s1 = bountyPoolWei s
      + (stakeAmount (reports s rid) * falseReportSlashBps s) div BPS_DENOMINATOR"
    using f(3) by (simp add: resolveShared_fields)
  have mono: "bountyPoolWei s1 \<le> bountyPoolWei s'"
    using s' runNested_pool[of s1 callback] by simp
  have same: "callback = [] \<longrightarrow> bountyPoolWei s' = bountyPoolWei s1"
    using s' by simp
  have rep: "reputation (reporterProfiles s' (reporter (reports s rid)))
      = reputation (reporterProfiles s1 (reporter (reports s rid)))"
    using s' runNested_reputation[of s1 callback] by simp
  have ex: "\<exists>x. resolveReport s msg_sender now sent [] rid False = Inr (x, payoutWei)
      \<and> bountyPoolWei x = bountyPoolWei s
            + (stakeAmount (reports s rid) * falseReportSlashBps s) div BPS_DENOMINATOR
      \<and> s' = (if payoutWei > 0 then runNested x callback else x)"
    using r1 pool1 s' by blast
  show ?thesis
    unfolding Let_def
    using f(1) f(2) f(4) pool1 mono same rep ex
    by (simp add: resolveShared_fields)
qed

lemma demoLedger_resolves:
  "case resolveReport demoLedger 1 300 True [] 0 False of
     Inl e \<Rightarrow> False | Inr (s', p) \<Rightarrow> True"
  by (simp add: demoLedger_def eval_defs)

lemma demoLedger_fields:
  "stakeAmount (reports demoLedger 0) = 5000000000000000"
  "falseReportSlashBps demoLedger = 7000"
  "bountyPoolWei demoLedger = 0"
  "reporter (reports demoLedger 0) = 2"
  "severity (reports demoLedger 0) = 2"
  "reputation (reporterProfiles demoLedger 2) = 0"
  by (simp_all add: demoLedger_def eval_defs)

theorem resolveReport_rejected_accounting_witness:
  "\<exists>s' p. resolveReport demoLedger 1 300 True [] 0 False = Inr (s', p)
     \<and> p = 1500000000000000
     \<and> bountyPoolWei s' = 3500000000000000
     \<and> reputation (reporterProfiles s' 2) = - 24"
proof -
  obtain s' p where r: "resolveReport demoLedger 1 300 True [] 0 False = Inr (s', p)"
    using demoLedger_resolves by (auto split: sum.splits)
  show ?thesis
    using resolveReport_rejected_accounting[OF r] r
    by (simp add: demoLedger_fields Let_def BPS_DENOMINATOR_def)
qed

text \<open>
  The claim as stated fails: the pool does not always grow by exactly the slash. In
  \<open>forwardedRefund\<close> the reporter is a contract that sends its payout of
  \<open>1500000000000000\<close> on to \<^verbatim>\<open>receive\<close> while it is being paid; the slash is
  \<open>3500000000000000\<close>, and when the call returns the pool, empty before, holds the whole
  stake.
\<close>

theorem forwarded_refund_credits_whole_stake:
  "forwardedRefund = Inr (fst (projr forwardedRefund), 1500000000000000)
   \<and> bountyPoolWei demoLedger = 0
   \<and> (stakeAmount (reports demoLedger 0) * falseReportSlashBps demoLedger) div BPS_DENOMINATOR
       = 3500000000000000
   \<and> bountyPoolWei (fst (projr forwardedRefund)) = 5000000000000000"
  by (simp add: forwardedRefund_def demoLedger_def eval_defs)

text \<open>
  C2, as the code has it. A report resolved with \<open>confirmedFake = true\<close>: the reputation
  rises by \<open>10 + severity * 4\<close>, the reward is the smaller of \<open>baseRewardWei * severity\<close>
  and the pool at the call, and the payout is the stake plus the reward. \<open>resolveReport\<close>
  debits the pool by exactly the reward before it pays the reporter: the pool when the
  payout is sent (the storage \<open>s1\<close>) plus the reward is the pool at the call. The only
  other transaction that lowers the pool is \<open>withdrawBountyPool\<close>, which debits the amount
  before it sends it. Each of the two debits is at most the balance it is taken from. The
  storage when either call returns is the storage at the transfer followed by the payee's
  calls during it, which can only add to the pool; with no such call the balance after the
  call plus the debit is the balance before it.
\<close>

theorem resolveReport_confirmed_accounting:
  "(resolveReport s msg_sender now sent callback rid True = Inr (s', payoutWei) \<longrightarrow>
      (let reward = min (baseRewardWei s * severity (reports s rid)) (bountyPoolWei s)
       in payoutWei = stakeAmount (reports s rid) + reward
          \<and> reward \<le> bountyPoolWei s
          \<and> (\<exists>s1. resolveReport s msg_sender now sent [] rid True = Inr (s1, payoutWei)
                 \<and> bountyPoolWei s1 + reward = bountyPoolWei s
                 \<and> s' = (if payoutWei > 0 then runNested s1 callback else s1))
          \<and> bountyPoolWei s \<le> bountyPoolWei s' + reward
          \<and> (callback = [] \<longrightarrow> bountyPoolWei s' + reward = bountyPoolWei s)
          \<and> reputation (reporterProfiles s' (reporter (reports s rid)))
              = reputation (reporterProfiles s (reporter (reports s rid)))
                + (10 + int (severity (reports s rid)) * 4)))
   \<and> (withdrawBountyPool s admin sent2 callback2 amount to = Inr s2 \<longrightarrow>
        amount \<le> bountyPoolWei s
        \<and> withdrawBountyPool s admin sent2 [] amount to
              = Inr (s\<lparr>bountyPoolWei := bountyPoolWei s - amount\<rparr>)
        \<and> s2 = runNested (s\<lparr>bountyPoolWei := bountyPoolWei s - amount\<rparr>) callback2
        \<and> bountyPoolWei s \<le> bountyPoolWei s2 + amount
        \<and> (callback2 = [] \<longrightarrow> bountyPoolWei s2 + amount = bountyPoolWei s))
   \<and> (exec s c = Inr s3 \<and> bountyPoolWei s3 < bountyPoolWei s \<longrightarrow>
        (\<exists>a t b cb r. c = ResolveReport a t b cb r True)
        \<or> (\<exists>a b cb v w. c = WithdrawBountyPool a b cb v w))"
proof (intro conjI impI)
  assume h: "resolveReport s msg_sender now sent callback rid True = Inr (s', payoutWei)"
  obtain s1 where r1: "resolveReport s msg_sender now sent [] rid True = Inr (s1, payoutWei)"
    and s': "s' = (if payoutWei > 0 then runNested s1 callback else s1)"
    using resolveReport_payee[OF h] by blast
  from resolveReport_branch[OF r1]
  have r: "resolveConfirmed (resolveShared s msg_sender now rid) rid = Inr (s1, payoutWei)"
    by simp
  note f = resolveConfirmed_result[OF r]
  define reward where
    "reward = min (baseRewardWei s * severity (reports s rid)) (bountyPoolWei s)"
  have le: "reward \<le> bountyPoolWei s" by (simp add: reward_def)
  have pool1: "bountyPoolWei s1 + reward = bountyPoolWei s"
    using f(2) le by (simp add: resolveShared_fields reward_def)
  have mono: "bountyPoolWei s1 \<le> bountyPoolWei s'"
    using s' runNested_pool[of s1 callback] by simp
  have same: "callback = [] \<longrightarrow> bountyPoolWei s' = bountyPoolWei s1"
    using s' by simp
  have rep: "reputation (reporterProfiles s' (reporter (reports s rid)))
      = reputation (reporterProfiles s1 (reporter (reports s rid)))"
    using s' runNested_reputation[of s1 callback] by simp
  have ex: "\<exists>x. resolveReport s msg_sender now sent [] rid True = Inr (x, payoutWei)
      \<and> bountyPoolWei x + reward = bountyPoolWei s
      \<and> s' = (if payoutWei > 0 then runNested x callback else x)"
    using r1 pool1 s' by blast
  have pay: "payoutWei = stakeAmount (reports s rid) + reward"
    using f(1) by (simp add: resolveShared_fields reward_def)
  have rep1: "reputation (reporterProfiles s1 (reporter (reports s rid)))
      = reputation (reporterProfiles s (reporter (reports s rid)))
        + (10 + int (severity (reports s rid)) * 4)"
    using f(3) by (simp add: resolveShared_fields)
  show "let reward = min (baseRewardWei s * severity (reports s rid)) (bountyPoolWei s)
       in payoutWei = stakeAmount (reports s rid) + reward
          \<and> reward \<le> bountyPoolWei s
          \<and> (\<exists>s1. resolveReport s msg_sender now sent [] rid True = Inr (s1, payoutWei)
                 \<and> bountyPoolWei s1 + reward = bountyPoolWei s
                 \<and> s' = (if payoutWei > 0 then runNested s1 callback else s1))
          \<and> bountyPoolWei s \<le> bountyPoolWei s' + reward
          \<and> (callback = [] \<longrightarrow> bountyPoolWei s' + reward = bountyPoolWei s)
          \<and> reputation (reporterProfiles s' (reporter (reports s rid)))
              = reputation (reporterProfiles s (reporter (reports s rid)))
                + (10 + int (severity (reports s rid)) * 4)"
    unfolding Let_def reward_def[symmetric]
    using pay le ex pool1 mono same rep rep1 by auto
next
  assume w: "withdrawBountyPool s admin sent2 callback2 amount to = Inr s2"
  obtain s1 where w1: "withdrawBountyPool s admin sent2 [] amount to = Inr s1"
    and s2: "s2 = runNested s1 callback2"
    using withdrawBountyPool_payee[OF w] by blast
  note f = withdrawBountyPool_effect[OF w1]
  show "amount \<le> bountyPoolWei s" by (rule f(2))
  show "withdrawBountyPool s admin sent2 [] amount to
          = Inr (s\<lparr>bountyPoolWei := bountyPoolWei s - amount\<rparr>)"
    using w1 f(1) by simp
  show "s2 = runNested (s\<lparr>bountyPoolWei := bountyPoolWei s - amount\<rparr>) callback2"
    using s2 f(1) by simp
  show "bountyPoolWei s \<le> bountyPoolWei s2 + amount"
    using s2 f(1) f(2) runNested_pool[of s1 callback2] by simp
  show "bountyPoolWei s2 + amount = bountyPoolWei s" if "callback2 = []"
    using that s2 f(1) f(2) by simp
next
  assume "exec s c = Inr s3 \<and> bountyPoolWei s3 < bountyPoolWei s"
  then show "(\<exists>a t b cb r. c = ResolveReport a t b cb r True)
        \<or> (\<exists>a b cb v w. c = WithdrawBountyPool a b cb v w)"
    using exec_pool_debit[of s c s3] by blast
qed

lemma demoFunded_resolves:
  "case resolveReport demoFunded 1 300 True [] 0 True of
     Inl e \<Rightarrow> False | Inr (s', p) \<Rightarrow> True"
  by (simp add: demoFunded_def eval_defs)

lemma demoFunded_withdraws:
  "case withdrawBountyPool demoFunded 1 True [] 1000 5 of Inl e \<Rightarrow> False | Inr s2 \<Rightarrow> True"
  by (simp add: demoFunded_def eval_defs)

lemma demoFunded_fields:
  "stakeAmount (reports demoFunded 0) = 5000000000000000"
  "baseRewardWei demoFunded = 2000000000000000"
  "bountyPoolWei demoFunded = 3000000000000000"
  "reporter (reports demoFunded 0) = 2"
  "severity (reports demoFunded 0) = 2"
  "reputation (reporterProfiles demoFunded 2) = 0"
  by (simp_all add: demoFunded_def eval_defs)

theorem resolveReport_confirmed_accounting_witness:
  "(\<exists>s' p. resolveReport demoFunded 1 300 True [] 0 True = Inr (s', p)
      \<and> p = 8000000000000000
      \<and> bountyPoolWei s' = 0
      \<and> reputation (reporterProfiles s' 2) = 18)
   \<and> (\<exists>s2. exec demoFunded (WithdrawBountyPool 1 True [] 1000 5) = Inr s2
      \<and> bountyPoolWei s2 = 2999999999999000
      \<and> bountyPoolWei s2 < bountyPoolWei demoFunded)"
proof -
  obtain s' p where r: "resolveReport demoFunded 1 300 True [] 0 True = Inr (s', p)"
    using demoFunded_resolves by (auto split: sum.splits)
  obtain s2 where w: "withdrawBountyPool demoFunded 1 True [] 1000 5 = Inr s2"
    using demoFunded_withdraws by (auto split: sum.splits)
  note th = resolveReport_confirmed_accounting
         [where s = demoFunded and msg_sender = 1 and now = 300 and sent = True
            and callback = "[]" and rid = 0 and s' = s' and payoutWei = p
            and admin = 1 and ?sent2.0 = True and ?callback2.0 = "[]" and amount = 1000
            and to = 5 and ?s2.0 = s2 and c = "WithdrawBountyPool 1 True [] 1000 5"
            and ?s3.0 = s2]
  from th r w
  have a: "p = 8000000000000000" "bountyPoolWei s' = 0"
          "reputation (reporterProfiles s' 2) = 18"
          "bountyPoolWei s2 = 2999999999999000"
    by (simp_all add: demoFunded_fields Let_def)
  have l: "bountyPoolWei s2 < bountyPoolWei demoFunded"
    using a(4) by (simp add: demoFunded_fields)
  have "(\<exists>a t b cb r. WithdrawBountyPool 1 True [] 1000 5 = ResolveReport a t b cb r True)
        \<or> (\<exists>a b cb v x. WithdrawBountyPool 1 True [] 1000 5 = WithdrawBountyPool a b cb v x)"
    using th w l by simp
  then show ?thesis using a l r w by simp
qed

text \<open>
  The claim as stated fails: the pool is not always lower by exactly the reward when the
  call returns. In \<open>forwardedReward\<close> the pool holds \<open>3000000000000000\<close>, all of which is
  the reward; the reporter sends its payout of \<open>8000000000000000\<close> on to \<^verbatim>\<open>receive\<close>
  while it is being paid, and when the call returns the pool holds that payout, not zero.
  In \<open>withdrawnAndReturned\<close> the receiver of a withdrawal sends the amount back in the same
  way, and the pool after the call is the pool before it.
\<close>

theorem forwarded_reward_refills_pool:
  "forwardedReward = Inr (fst (projr forwardedReward), 8000000000000000)
   \<and> bountyPoolWei demoFunded = 3000000000000000
   \<and> min (baseRewardWei demoFunded * severity (reports demoFunded 0)) (bountyPoolWei demoFunded)
       = 3000000000000000
   \<and> bountyPoolWei (fst (projr forwardedReward)) = 8000000000000000
   \<and> withdrawnAndReturned = Inr (projr withdrawnAndReturned)
   \<and> bountyPoolWei (projr withdrawnAndReturned) = 3000000000000000"
  by (simp add: forwardedReward_def withdrawnAndReturned_def demoFunded_def eval_defs)

section \<open>Funding and pausing\<close>

text \<open>
  C9. The plain-value \<open>receive\<close> function credits the whole amount sent to the bounty pool
  for any sender: it has no role check (it succeeds whenever the sum fits a
  \<^verbatim>\<open>uint256\<close>), while \<open>fundBountyPool\<close> refuses every sender without the regulator role.
\<close>

theorem receive_credits_any_sender:
  assumes "bountyPoolWei s + msg_value \<le> UINT256_MAX"
  shows "receive s msg_sender msg_value = Inr (s\<lparr>bountyPoolWei := bountyPoolWei s + msg_value\<rparr>)
         \<and> (\<not> roles s REGULATOR_ROLE msg_sender \<longrightarrow>
              fundBountyPool s msg_sender msg_value
                = Inl (AccessControlUnauthorizedAccount msg_sender REGULATOR_ROLE))"
  using assms by (simp add: receive_def fundBountyPool_def)

theorem receive_credits_any_sender_witness:
  "bountyPoolWei (constructor 1) + 500 \<le> UINT256_MAX
   \<and> \<not> roles (constructor 1) REGULATOR_ROLE 2
   \<and> (case receive (constructor 1) 2 500 of Inl e \<Rightarrow> 0 | Inr s' \<Rightarrow> bountyPoolWei s') = 500
   \<and> fundBountyPool (constructor 1) 2 500 = Inl (AccessControlUnauthorizedAccount 2 REGULATOR_ROLE)"
proof -
  have h: "bountyPoolWei (constructor 1) + 500 \<le> UINT256_MAX"
    by (simp add: constructor_def UINT256_MAX_def)
  have n: "\<not> roles (constructor 1) REGULATOR_ROLE 2"
    by (simp add: constructor_def)
  have p: "bountyPoolWei (constructor 1) = 0"
    by (simp add: constructor_def)
  show ?thesis
    using receive_credits_any_sender[OF h, of 2] h n p by simp
qed

text \<open>
  C10. While the contract is paused, every \<open>reportSuspiciousBatch\<close> and every
  \<open>resolveReport\<close> call reverts, so the transaction leaves the storage as it was. A
  successful \<open>pause\<close> changes the pause bit and nothing else, and \<open>unpause\<close> by a regulator
  then gives back the very storage that was paused, on which both operations behave as
  before.
\<close>

theorem pause_gates_ledger:
  "(paused s \<longrightarrow>
      reportSuspiciousBatch s a v now t n e r sev = Inl EnforcedPause
      \<and> resolveReport s a' now' sent cb rid cf = Inl EnforcedPause
      \<and> apply_call s (ReportSuspiciousBatch a v now t n e r sev) = s
      \<and> apply_call s (ResolveReport a' now' sent cb rid cf) = s)
   \<and> (pause s g = Inr s1 \<longrightarrow>
        s1 = s\<lparr>paused := True\<rparr>
        \<and> (\<forall>g'. roles s REGULATOR_ROLE g' \<longrightarrow> unpause s1 g' = Inr s))"
  by (auto simp: reportSuspiciousBatch_def resolveReport_def apply_call_def pause_def unpause_def
           split: if_splits)

lemma demoLedger_pauses: "\<exists>x. pause demoLedger 1 = Inr x"
  by (simp add: demoLedger_def eval_defs)

lemma demoLedger_regulator: "roles demoLedger REGULATOR_ROLE 1" "\<not> paused demoLedger"
  by (simp_all add: demoLedger_def eval_defs)

theorem pause_gates_ledger_witness:
  "\<exists>s1. pause demoLedger 1 = Inr s1 \<and> paused s1
     \<and> reportSuspiciousBatch s1 3 5000000000000000 400 0 11 ''e'' ''r'' 1 = Inl EnforcedPause
     \<and> resolveReport s1 1 400 True [] 0 False = Inl EnforcedPause
     \<and> unpause s1 1 = Inr demoLedger"
proof -
  obtain s1 where p: "pause demoLedger 1 = Inr s1"
    using demoLedger_pauses by fastforce
  from pause_gates_ledger[where s = demoLedger and g = 1 and ?s1.0 = s1] p
  have s1: "s1 = demoLedger\<lparr>paused := True\<rparr>" and u: "unpause s1 1 = Inr demoLedger"
    using demoLedger_regulator by auto
  have ps: "paused s1" using s1 by simp
  from pause_gates_ledger[of s1 3 5000000000000000 400 0 11 "''e''" "''r''" 1 1 400 True "[]" 0 False]
    ps
  have "reportSuspiciousBatch s1 3 5000000000000000 400 0 11 ''e'' ''r'' 1 = Inl EnforcedPause"
       "resolveReport s1 1 400 True [] 0 False = Inl EnforcedPause"
    by simp_all
  then show ?thesis using p ps u by simp
qed

section \<open>The high-risk flag\<close>






text \<open>
  The rejection branch of \<open>resolveReport\<close> looks only at the quarantine and at the
  pending-severe counter: in \<open>failedLabThenRejected\<close> token \<open>0\<close> has a failed lab
  attestation on record and the rejection of a severity-1 report has cleared its flag.
\<close>

lemma failed_attestation_flag_cleared:
  "map passed (labAttestationsByBatch failedLabThenRejected 0) = [False]
   \<and> \<not> flaggedHighRisk (batches failedLabThenRejected 0)"
  by (simp add: failedLabThenRejected_def eval_defs)

section \<open>Nullifiers, the cap on open reports, and settled reports\<close>

text \<open>
  C4. Once a \<open>reportSuspiciousBatch\<close> call has succeeded with a nullifier, the nullifier
  is marked used in every later state, and every later call presenting it reverts, whoever
  the caller and whatever the token: the call stops at the pause check, at the check that
  the token exists, or with \<open>Nullifier already used\<close>. The transaction changes nothing.
\<close>

theorem nullifier_single_use:
  assumes "reportSuspiciousBatch s a v now t n e r sev = Inr (s1, rid)"
  shows "identityNullifierUsed (run s1 cs) n
       \<and> (reportSuspiciousBatch (run s1 cs) a' v' now' t' n e' r' sev' = Inl EnforcedPause
          \<or> reportSuspiciousBatch (run s1 cs) a' v' now' t' n e' r' sev'
               = Inl (Revert ''Unknown batch'')
          \<or> reportSuspiciousBatch (run s1 cs) a' v' now' t' n e' r' sev'
               = Inl (Revert ''Nullifier already used''))
       \<and> apply_call (run s1 cs) (ReportSuspiciousBatch a' v' now' t' n e' r' sev') = run s1 cs"
proof -
  note f = reportSuspiciousBatch_effect[OF assms]
  have "identityNullifierUsed s1 n" using f(4) by simp
  then have u: "identityNullifierUsed (run s1 cs) n" by (rule run_nullifier)
  note rej = used_nullifier_rejected[OF u f(1), of a' v' now' t' e' r' sev']
  then have "apply_call (run s1 cs) (ReportSuspiciousBatch a' v' now' t' n e' r' sev')
               = run s1 cs"
    by (auto simp: apply_call_def)
  then show ?thesis using u rej by blast
qed

lemma mintedOnce_report:
  "\<exists>x. reportSuspiciousBatch mintedOnce 2 2000000000000000 200 0 9 ''ipfs://a'' ''odd'' 1 = Inr x"
  by (simp add: mintedOnce_def eval_defs)

theorem nullifier_single_use_witness:
  "\<exists>s1 rid. reportSuspiciousBatch mintedOnce 2 2000000000000000 200 0 9 ''ipfs://a'' ''odd'' 1
                = Inr (s1, rid)
     \<and> identityNullifierUsed (run s1 [mintToken1]) 9
     \<and> reportSuspiciousBatch (run s1 [mintToken1]) 3 10000000000000000 500 1 9
          ''ipfs://b'' ''seal'' 2 = Inl (Revert ''Nullifier already used'')"
proof -
  obtain s1 rid where
    r: "reportSuspiciousBatch mintedOnce 2 2000000000000000 200 0 9 ''ipfs://a'' ''odd'' 1
          = Inr (s1, rid)"
    using mintedOnce_report by fastforce
  have s1: "s1 = fst (projr (reportSuspiciousBatch mintedOnce 2 2000000000000000 200 0 9
                              ''ipfs://a'' ''odd'' 1))"
    using r by simp
  have live: "\<not> paused (run s1 [mintToken1])" "owners (run s1 [mintToken1]) 1 \<noteq> 0"
    unfolding s1 by (simp_all add: mintedOnce_def eval_defs)
  note th = nullifier_single_use[OF r, of "[mintToken1]" 3 10000000000000000 500 1
              "''ipfs://b''" "''seal''" 2]
  have "reportSuspiciousBatch (run s1 [mintToken1]) 3 10000000000000000 500 1 9
          ''ipfs://b'' ''seal'' 2 \<noteq> Inl EnforcedPause"
       "reportSuspiciousBatch (run s1 [mintToken1]) 3 10000000000000000 500 1 9
          ''ipfs://b'' ''seal'' 2 \<noteq> Inl (Revert ''Unknown batch'')"
    using live by (simp_all add: reportSuspiciousBatch_def Let_def)
  then show ?thesis using th r by auto
qed







text \<open>
  C6. In a reachable state, a successful \<open>resolveReport\<close> finds the report pending and
  leaves it \<open>ConfirmedFake\<close> or \<open>RejectedFalse\<close>, as the call says. From then on the
  report is never written again, whatever transactions follow, and every further
  \<open>resolveReport\<close> on the same id reverts, so that the transaction changes nothing: the
  revert is \<open>Already resolved\<close> for every call that passes the modifiers (the contract not
  paused, the caller a regulator).
\<close>

theorem resolveReport_settles_once:
  fixes d cs0
  defines "s \<equiv> run (constructor d) cs0"
  assumes r: "resolveReport s a now sent cb rid cf = Inr (s1, p)"
  shows "status (reports s rid) = Pending
       \<and> status (reports s1 rid) = (if cf then ConfirmedFake else RejectedFalse)
       \<and> reports (run s1 cs) rid = reports s1 rid
       \<and> (\<exists>err. resolveReport (run s1 cs) a' now' sent' cb' rid cf' = Inl err
             \<and> (\<not> paused (run s1 cs) \<and> roles (run s1 cs) REGULATOR_ROLE a'
                  \<longrightarrow> err = Revert ''Already resolved''))
       \<and> apply_call (run s1 cs) (ResolveReport a' now' sent' cb' rid cf') = run s1 cs"
proof -
  have i: "ledgerInv s" unfolding s_def by (rule ledgerInv_reachable)
  have i1: "ledgerInv s1" by (rule ledgerInv_resolveReport[OF i r])
  note q = resolveReport_requires[OF r]
  note f = resolveReport_keeps[OF r]
  have k1: "reporter (reports s1 rid) \<noteq> 0" using f(4) q(3) by simp
  have st1: "status (reports s1 rid) \<noteq> Pending" using f(3) by simp
  have same: "reports (run s1 cs) rid = reports s1 rid" by (rule run_settled[OF i1 k1 st1])
  have k2: "reporter (reports (run s1 cs) rid) \<noteq> 0"
    and st2: "status (reports (run s1 cs) rid) \<noteq> Pending"
    using same k1 st1 by simp_all
  note rej = settled_resolve_rejected[OF k2 st2, of a' now' sent' cb' cf']
  have err: "\<exists>err. resolveReport (run s1 cs) a' now' sent' cb' rid cf' = Inl err
             \<and> (\<not> paused (run s1 cs) \<and> roles (run s1 cs) REGULATOR_ROLE a'
                  \<longrightarrow> err = Revert ''Already resolved'')"
    using rej k2 st2 by (auto simp: resolveReport_def)
  then have "apply_call (run s1 cs) (ResolveReport a' now' sent' cb' rid cf') = run s1 cs"
    by (auto simp: apply_call_def)
  then show ?thesis using q(4) f(3) same err by blast
qed

lemma demoLedger_resolves_again:
  "\<exists>x. resolveReport demoLedger 1 300 True [] 0 False = Inr x"
  by (simp add: demoLedger_def eval_defs)

theorem resolveReport_settles_once_witness:
  "\<exists>s1 p. resolveReport demoLedger 1 300 True [] 0 False = Inr (s1, p)
     \<and> status (reports s1 0) = RejectedFalse
     \<and> reports (run s1 [mintToken1]) 0 = reports s1 0
     \<and> resolveReport (run s1 [mintToken1]) 1 400 True [] 0 True = Inl (Revert ''Already resolved'')"
proof -
  obtain s1 p where r: "resolveReport demoLedger 1 300 True [] 0 False = Inr (s1, p)"
    using demoLedger_resolves_again by fastforce
  have s1: "s1 = fst (projr (resolveReport demoLedger 1 300 True [] 0 False))"
    using r by simp
  have live: "\<not> paused (run s1 [mintToken1])" "roles (run s1 [mintToken1]) REGULATOR_ROLE 1"
    unfolding s1 by (simp_all add: demoLedger_def eval_defs)
  note th = resolveReport_settles_once
              [of 1 "[mintToken0,
      ReportSuspiciousBatch 2 5000000000000000 200 0 9 ''ipfs://weak-proof'' ''odd'' 2]"
               1 300 True "[]" 0 False s1 p "[mintToken1]" 1 400 True "[]" True,
               folded demoLedger_def, OF r]
  show ?thesis using th r live by auto
qed

section \<open>The High-Risk Index as a set\<close>

text \<open>
  C7. From any reachable state, which is coherent, any sequence of \<^verbatim>\<open>_setHighRisk\<close>
  calls runs to its end and leaves a coherent index whose array has no duplicate and holds
  exactly the tokens whose last \<open>setFlag (t, true)\<close> is followed by no later
  \<open>setFlag (t, false)\<close>, together with the tokens that were in the array before and that
  no \<open>setFlag (t, false)\<close> of the sequence names. Coherent means: every token of the array
  has a nonzero position entry that is its own slot plus one, and a token with a nonzero
  entry is in the array.
\<close>

theorem highRiskIndex_tracks_last_flag:
  fixes d cs
  defines "s \<equiv> run (constructor d) cs"
  shows "indexCoherent s
       \<and> (\<exists>s'. setFlags s fs = Inr s'
             \<and> indexCoherent s'
             \<and> distinct (highRiskBatchIds s')
             \<and> set (highRiskBatchIds s')
                 = {t. inIndexBySpec fs t
                       \<or> (t \<in> set (highRiskBatchIds s) \<and> (t, False) \<notin> set fs)})"
proof -
  have c: "indexCoherent s"
    unfolding s_def using ledgerInv_reachable by (rule ledgerInvD(1))
  from setFlags_spec[OF c, of fs] obtain s' where
    r: "setFlags s fs = Inr s'" and c': "indexCoherent s'"
    and fl: "\<forall>t. flaggedHighRisk (batches s' t)
                = (inIndexBySpec fs t \<or> (flaggedHighRisk (batches s t) \<and> (t, False) \<notin> set fs))"
    by blast
  have "distinct (highRiskBatchIds s')" using c' by (simp add: indexCoherent_def)
  moreover have "set (highRiskBatchIds s')
                 = {t. inIndexBySpec fs t
                       \<or> (t \<in> set (highRiskBatchIds s) \<and> (t, False) \<notin> set fs)}"
    using c c' fl by (auto simp: indexCoherent_def)
  ultimately show ?thesis using c r c' by blast
qed

lemma demo_setFlags:
  "(case setFlags (constructor 1) [(5, True), (7, True), (9, True), (5, False)] of
      Inl e \<Rightarrow> False
    | Inr s' \<Rightarrow> highRiskBatchIds s' = [9, 7]
        \<and> highRiskIndexPlusOne s' 9 = 1 \<and> highRiskIndexPlusOne s' 7 = 2
        \<and> highRiskIndexPlusOne s' 5 = 0)"
  by (simp add: constructor_def setHighRisk_def Let_def zeroBatch_def)

theorem highRiskIndex_tracks_last_flag_witness:
  "\<exists>s'. setFlags (run (constructor 1) []) [(5, True), (7, True), (9, True), (5, False)] = Inr s'
     \<and> highRiskBatchIds s' = [9, 7]
     \<and> highRiskIndexPlusOne s' 9 = 1 \<and> highRiskIndexPlusOne s' 7 = 2
     \<and> highRiskIndexPlusOne s' 5 = 0
     \<and> indexCoherent s'
     \<and> {t. inIndexBySpec [(5, True), (7, True), (9, True), (5, False)] t} = {7, 9}"
proof -
  let ?fs = "[(5::nat, True), (7, True), (9, True), (5, False)]"
  obtain s' where e: "setFlags (constructor 1) ?fs = Inr s'"
     "highRiskBatchIds s' = [9, 7]"
     "highRiskIndexPlusOne s' 9 = 1" "highRiskIndexPlusOne s' 7 = 2"
     "highRiskIndexPlusOne s' 5 = 0"
    using demo_setFlags by (auto split: sum.splits)
  have r0: "run (constructor 1) [] = constructor 1" by simp
  have empty: "highRiskBatchIds (constructor 1) = []" by (simp add: constructor_def)
  have th: "\<exists>s''. setFlags (constructor 1) ?fs = Inr s''
             \<and> indexCoherent s''
             \<and> distinct (highRiskBatchIds s'')
             \<and> set (highRiskBatchIds s'')
                 = {t. inIndexBySpec ?fs t
                       \<or> (t \<in> set (highRiskBatchIds (constructor 1)) \<and> (t, False) \<notin> set ?fs)}"
    using highRiskIndex_tracks_last_flag[of 1 "[]" ?fs] unfolding r0 by (rule conjunct2)
  then obtain s'' where
    t: "setFlags (constructor 1) ?fs = Inr s''" "indexCoherent s''"
       "set (highRiskBatchIds s'')
          = {t. inIndexBySpec ?fs t
                \<or> (t \<in> set (highRiskBatchIds (constructor 1)) \<and> (t, False) \<notin> set ?fs)}"
    by blast
  have same: "s'' = s'" using e(1) t(1) by simp
  have "{t. inIndexBySpec ?fs t} = set (highRiskBatchIds s')"
    using t(3) unfolding same empty by simp
  then have m: "{t. inIndexBySpec ?fs t} = {7, 9}" unfolding e(2) by auto
  have c: "indexCoherent s'" using t(2) same by simp
  show ?thesis
    unfolding r0 using e c m by blast
qed

section \<open>Blocked reporters\<close>

text \<open>
  C8, as the code has it. A rejection that leaves the reporter's reputation at \<open>-100\<close> or
  below sets \<open>blocked\<close>. Once \<open>blocked\<close> is true it stays true across every sequence of
  transactions in which no \<open>setReporterBlocked (reporter, false)\<close> takes effect, and in
  every such state every \<open>reportSuspiciousBatch\<close> call of that reporter reverts. A
  \<open>setReporterBlocked\<close> takes effect only when its caller holds \<^verbatim>\<open>REGULATOR_ROLE\<close>: from
  any other caller it reverts, and is no unblocking. (An unblocking can also be a call
  that a payee makes during a transfer; \<open>callUnblocks\<close> covers both.)
\<close>

theorem blocked_until_regulator_unblocks:
  "(blocked (reporterProfiles s w) \<and> neverUnblocked w s cs \<longrightarrow>
      blocked (reporterProfiles (run s cs) w)
      \<and> (\<exists>err. reportSuspiciousBatch (run s cs) w v now t n e r sev = Inl err))
   \<and> (resolveReport s0 a now0 sent cb rid False = Inr (s1, p)
        \<and> reputation (reporterProfiles s1 (reporter (reports s0 rid))) \<le> - 100
        \<and> \<not> callUnblocks (reporter (reports s0 rid)) s0 (ResolveReport a now0 sent cb rid False)
      \<longrightarrow> blocked (reporterProfiles s1 (reporter (reports s0 rid))))
   \<and> (\<not> roles s REGULATOR_ROLE a' \<longrightarrow>
        setReporterBlocked s a' w b = Inl (AccessControlUnauthorizedAccount a' REGULATOR_ROLE)
        \<and> apply_call s (Entry (SetReporterBlocked a' w b)) = s
        \<and> \<not> callUnblocks w s (Entry (SetReporterBlocked a' w b)))"
proof (intro conjI impI)
  assume h: "blocked (reporterProfiles s w) \<and> neverUnblocked w s cs"
  then show b: "blocked (reporterProfiles (run s cs) w)" using run_blocked by blast
  show "\<exists>err. reportSuspiciousBatch (run s cs) w v now t n e r sev = Inl err"
    by (rule blocked_reporter_rejected[OF b])
next
  let ?w = "reporter (reports s0 rid)"
  assume h: "resolveReport s0 a now0 sent cb rid False = Inr (s1, p)
        \<and> reputation (reporterProfiles s1 ?w) \<le> - 100
        \<and> \<not> callUnblocks ?w s0 (ResolveReport a now0 sent cb rid False)"
  then have r: "resolveReport s0 a now0 sent cb rid False = Inr (s1, p)" by simp
  obtain m where r1: "resolveReport s0 a now0 sent [] rid False = Inr (m, p)"
    and s1: "s1 = (if p > 0 then runNested m cb else m)"
    using resolveReport_payee[OF r] by blast
  have "reputation (reporterProfiles m ?w) = reputation (reporterProfiles s1 ?w)"
    using s1 runNested_reputation[of m cb] by simp
  then have bm: "blocked (reporterProfiles m ?w)"
    using h resolveReport_effect(7)[OF r1] by simp
  show "blocked (reporterProfiles s1 ?w)"
  proof (cases "p > 0")
    case True
    then have "\<not> callbackUnblocks ?w m cb" using h r1 by simp
    then show ?thesis using runNested_blocked[OF bm] s1 True by simp
  next
    case False
    then show ?thesis using bm s1 by simp
  qed
next
  assume n: "\<not> roles s REGULATOR_ROLE a'"
  show "setReporterBlocked s a' w b = Inl (AccessControlUnauthorizedAccount a' REGULATOR_ROLE)"
    by (rule setReporterBlocked_gate(1)[OF n])
  show "apply_call s (Entry (SetReporterBlocked a' w b)) = s"
    by (rule setReporterBlocked_gate(2)[OF n])
  show "\<not> callUnblocks w s (Entry (SetReporterBlocked a' w b))"
    by (rule setReporterBlocked_gate(3)[OF n])
qed

lemma fourRejections_resolves:
  "case resolveReport fourRejections 1 120300 True [] 4 False of
     Inl e \<Rightarrow> False | Inr (s1, p) \<Rightarrow> True"
  by (simp add: fourRejections_def eval_defs)

lemma fourRejections_fields:
  "reporter (reports fourRejections 4) = 2"
  "reputation (reporterProfiles fourRejections 2) = - 96"
  "severity (reports fourRejections 4) = 2"
  "\<not> blocked (reporterProfiles fourRejections 2)"
  by (simp_all add: fourRejections_def eval_defs)

text \<open>
  After the fifth rejection the reporter at address \<open>2\<close> is blocked. A token is minted,
  the reporter tries to unblock itself, which reverts, and the regulator unblocks another
  address: the reporter is still blocked and its next report reverts.
\<close>

theorem blocked_until_regulator_unblocks_witness:
  "\<exists>s1 p. resolveReport fourRejections 1 120300 True [] 4 False = Inr (s1, p)
     \<and> reputation (reporterProfiles s1 2) = - 120
     \<and> \<not> callUnblocks 2 fourRejections (ResolveReport 1 120300 True [] 4 False)
     \<and> blocked (reporterProfiles s1 2)
     \<and> \<not> roles s1 REGULATOR_ROLE 2
     \<and> setReporterBlocked s1 2 2 False = Inl (AccessControlUnauthorizedAccount 2 REGULATOR_ROLE)
     \<and> neverUnblocked 2 s1
          [mintToken1, Entry (SetReporterBlocked 2 2 False), Entry (SetReporterBlocked 1 3 False)]
     \<and> blocked (reporterProfiles
          (run s1 [mintToken1, Entry (SetReporterBlocked 2 2 False),
                   Entry (SetReporterBlocked 1 3 False)]) 2)
     \<and> (\<exists>err. reportSuspiciousBatch
                  (run s1 [mintToken1, Entry (SetReporterBlocked 2 2 False),
                           Entry (SetReporterBlocked 1 3 False)])
                  2 10000000000000000 200000 1 77 ''ipfs://c'' ''again'' 1 = Inl err)"
proof -
  let ?cs = "[mintToken1, Entry (SetReporterBlocked 2 2 False),
              Entry (SetReporterBlocked 1 3 False)]"
  obtain s1 p where r: "resolveReport fourRejections 1 120300 True [] 4 False = Inr (s1, p)"
    using fourRejections_resolves by (auto split: sum.splits)
  have rep: "reputation (reporterProfiles s1 2) = - 120"
    using resolveReport_rejected_reputation[OF r] by (simp add: fourRejections_fields)
  have s1: "s1 = fst (projr (resolveReport fourRejections 1 120300 True [] 4 False))"
    using r by simp
  have nr: "\<not> roles s1 REGULATOR_ROLE 2"
    unfolding s1 by (simp add: fourRejections_def eval_defs)
  have nu: "neverUnblocked 2 s1 ?cs"
    unfolding s1 by (simp add: fourRejections_def eval_defs)
  note th = blocked_until_regulator_unblocks
              [where s = s1 and w = 2 and cs = ?cs and v = 10000000000000000 and now = 200000
                 and t = 1 and n = 77 and e = "''ipfs://c''" and r = "''again''" and sev = 1
                 and ?s0.0 = fourRejections and a = 1 and ?now0.0 = 120300 and sent = True
                 and cb = "[]" and rid = 4 and ?s1.0 = s1 and p = p and a' = 2 and b = False]
  have b: "blocked (reporterProfiles s1 2)"
    using th r rep by (simp add: fourRejections_fields)
  have gate: "setReporterBlocked s1 2 2 False
                = Inl (AccessControlUnauthorizedAccount 2 REGULATOR_ROLE)"
    using th nr by simp
  have nc: "\<not> callUnblocks 2 fourRejections (ResolveReport 1 120300 True [] 4 False)"
    using r by simp
  show ?thesis using th b nu r rep nr gate nc by blast
qed

text \<open>
  The claim as stated fails: the regulator's \<open>setReporterBlocked\<close> sets the field to
  either value. In \<open>blockedOnce\<close> reporter \<open>2\<close> is blocked, and one transaction later, in
  \<open>blockedThenUnblocked\<close>, it is not.
\<close>

theorem blocked_reset_by_regulator:
  "blocked (reporterProfiles blockedOnce 2)
   \<and> \<not> blocked (reporterProfiles blockedThenUnblocked 2)"
  by (simp add: blockedThenUnblocked_def blockedOnce_def eval_defs)

end
